theory Spec2Isabelle
  imports Complex_Main
begin

section \<open>Patterns\<close>

text \<open>
  A pattern is a \<^verbatim>\<open>number[][]\<close>. Cells are numbers; a read past the end of a row yields
  \<^verbatim>\<open>undefined\<close> in JavaScript, which is a value of its own here. A cell is "set" when it
  is truthy: a number other than zero.
\<close>

datatype cell = Num int | Undefined

type_synonym pattern = "cell list list"

datatype error = TypeError

fun truthy :: "cell \<Rightarrow> bool" where
  "truthy (Num n) = (n \<noteq> 0)"
| "truthy Undefined = False"

text \<open>\<^verbatim>\<open>row[j]\<close> for an array \<open>row\<close> and an index \<open>j \<ge> 0\<close>.\<close>

definition cellAt :: "cell list \<Rightarrow> nat \<Rightarrow> cell" where
  "cellAt r j = (if j < length r then r ! j else Undefined)"

subsection \<open>rotatePattern (Grid and PaletteShape carry the same function)\<close>

text \<open>
  The local variables of \<^verbatim>\<open>rotatePattern\<close>: the argument and the array under
  construction. The loop body assigns \<^verbatim>\<open>rotated[j][rows - 1 - i] = pattern[i][j]\<close>; both
  indices of the write are in range (\<open>j < cols\<close>, \<open>rows - 1 - i < rows\<close>).
  \<^verbatim>\<open>pattern[0].length\<close> throws a TypeError when the pattern has no row.
\<close>

record rotate_vars =
  rv_pattern :: pattern
  rv_rotated :: pattern

definition rotate_body :: "nat \<Rightarrow> nat \<Rightarrow> nat \<Rightarrow> rotate_vars \<Rightarrow> rotate_vars" where
  "rotate_body rows i j v =
     v\<lparr>rv_rotated :=
         (rv_rotated v)[j := (rv_rotated v ! j)[rows - 1 - i := cellAt (rv_pattern v ! i) j]]\<rparr>"

definition rotate_inner :: "nat \<Rightarrow> nat \<Rightarrow> nat \<Rightarrow> rotate_vars \<Rightarrow> rotate_vars" where
  "rotate_inner rows cols i v = fold (rotate_body rows i) [0..<cols] v"

definition rotate_loops :: "nat \<Rightarrow> nat \<Rightarrow> rotate_vars \<Rightarrow> rotate_vars" where
  "rotate_loops rows cols v = fold (rotate_inner rows cols) [0..<rows] v"

definition rotatePattern_run :: "pattern \<Rightarrow> error + rotate_vars" where
  "rotatePattern_run pattern =
     (case pattern of
        [] \<Rightarrow> Inl TypeError
      | r0 # _ \<Rightarrow>
          (let rows = length pattern;
               cols = length r0;
               rotated = replicate cols (replicate rows (Num 0))
           in Inr (rotate_loops rows cols \<lparr>rv_pattern = pattern, rv_rotated = rotated\<rparr>)))"

definition rotatePattern :: "pattern \<Rightarrow> error + pattern" where
  "rotatePattern pattern = map_sum id rv_rotated (rotatePattern_run pattern)"

text \<open>A rectangular \<open>R \<times> C\<close> matrix: \<open>R\<close> rows, each of length \<open>C\<close>.\<close>

definition rectangular :: "nat \<Rightarrow> nat \<Rightarrow> pattern \<Rightarrow> bool" where
  "rectangular R C p = (length p = R \<and> list_all (\<lambda>r. length r = C) p)"

text \<open>Four rotations in a row; an exception of any of them ends the chain.\<close>

definition rotate4 :: "pattern \<Rightarrow> error + pattern" where
  "rotate4 p =
     (case rotatePattern p of Inl e \<Rightarrow> Inl e | Inr p1 \<Rightarrow>
      case rotatePattern p1 of Inl e \<Rightarrow> Inl e | Inr p2 \<Rightarrow>
      case rotatePattern p2 of Inl e \<Rightarrow> Inl e | Inr p3 \<Rightarrow> rotatePattern p3)"

subsection \<open>trimPattern (ShapeCreator)\<close>

text \<open>
  \<^verbatim>\<open>Array.prototype.slice(start, end)\<close>: a negative index counts from the end, both
  indices are cut to the array, and the copy is empty when \<open>end \<le> start\<close>.
\<close>

definition slice :: "'a list \<Rightarrow> int \<Rightarrow> int \<Rightarrow> 'a list" where
  "slice xs start end' =
     (let len = int (length xs);
          k = (if start < 0 then max (len + start) 0 else min start len);
          final = (if end' < 0 then max (len + end') 0 else min end' len)
      in take (nat (final - k)) (drop (nat k) xs))"

text \<open>
  The local variables of \<^verbatim>\<open>trimPattern\<close>. The first pair of loops scans every cell of every
  row (each row to its own length) and widens the box at a set cell; the second loop pushes
  the slice of each row of the box. The rows \<open>minRow\<close> and \<open>maxRow\<close> hold a set cell when the
  second loop runs, so \<^verbatim>\<open>pat[i]\<close> is a row there. \<^verbatim>\<open>pat[0].length\<close> throws a TypeError when
  the pattern has no row.
\<close>

record trim_vars =
  tv_pat :: pattern
  tv_minRow :: int
  tv_maxRow :: int
  tv_minCol :: int
  tv_maxCol :: int
  tv_trimmed :: pattern

definition trim_scan_body :: "nat \<Rightarrow> nat \<Rightarrow> trim_vars \<Rightarrow> trim_vars" where
  "trim_scan_body i j v =
     (if truthy (cellAt (tv_pat v ! i) j)
      then v\<lparr>tv_minRow := min (tv_minRow v) (int i),
             tv_maxRow := max (tv_maxRow v) (int i),
             tv_minCol := min (tv_minCol v) (int j),
             tv_maxCol := max (tv_maxCol v) (int j)\<rparr>
      else v)"

definition trim_scan_row :: "nat \<Rightarrow> trim_vars \<Rightarrow> trim_vars" where
  "trim_scan_row i v = fold (trim_scan_body i) [0..<length (tv_pat v ! i)] v"

definition trim_scan :: "trim_vars \<Rightarrow> trim_vars" where
  "trim_scan v = fold trim_scan_row [0..<length (tv_pat v)] v"

definition trim_push :: "int \<Rightarrow> trim_vars \<Rightarrow> trim_vars" where
  "trim_push i v =
     v\<lparr>tv_trimmed := tv_trimmed v @ [slice (tv_pat v ! nat i) (tv_minCol v) (tv_maxCol v + 1)]\<rparr>"

definition trimPattern_run :: "pattern \<Rightarrow> error + trim_vars" where
  "trimPattern_run pat =
     (case pat of
        [] \<Rightarrow> Inl TypeError
      | r0 # _ \<Rightarrow>
          (let v = trim_scan \<lparr>tv_pat = pat, tv_minRow = int (length pat), tv_maxRow = - 1,
                              tv_minCol = int (length r0), tv_maxCol = - 1, tv_trimmed = []\<rparr>
           in if tv_minRow v > tv_maxRow v
              then Inr (v\<lparr>tv_trimmed := [[Num 1]]\<rparr>)
              else Inr (fold trim_push [tv_minRow v..tv_maxRow v] v)))"

definition trimPattern :: "pattern \<Rightarrow> error + pattern" where
  "trimPattern pat = map_sum id tv_trimmed (trimPattern_run pat)"

text \<open>Cell \<open>(i, j)\<close> of a pattern is set.\<close>

definition cellSet :: "pattern \<Rightarrow> nat \<Rightarrow> nat \<Rightarrow> bool" where
  "cellSet p i j = (i < length p \<and> j < length (p ! i) \<and> truthy (p ! i ! j))"

definition hasSetCell :: "pattern \<Rightarrow> bool" where
  "hasSetCell p = list_ex (list_ex truthy) p"

section \<open>The grid\<close>

subsection \<open>Props, geometry and state\<close>

text \<open>
  Pixel quantities (pointer and container coordinates, grab offset, cell size and gap) are
  JavaScript numbers, that is, doubles. The model covers integer pixel values: they are
  integers here, and the sums and differences of the code are the integer ones, which
  doubles compute exactly below \<open>2^53\<close>. A quotient is taken in the rationals and given to
  \<^verbatim>\<open>Math.floor\<close> (the floor) or \<^verbatim>\<open>Math.round\<close> (the floor of \<open>x + 1/2\<close>: a tie goes up);
  for integer operands of pixel size the double quotient has the same floor and the same
  rounding as the exact one (lemma \<open>rounded_quotient\<close> below). The model says nothing
  about non-integer pixel values, about magnitudes from \<open>2^31\<close> on, or about a zero pitch
  \<open>cellSize + gapSize\<close>, where JavaScript computes with infinities and NaN.
\<close>

record grid_props =
  prop_rows :: int
  prop_cols :: int
  prop_editionMode :: bool
  prop_gridCellSize :: "int option"
  prop_gridPaddingSize :: "int option"

definition gridCellSize :: int where "gridCellSize = 30"
definition gridPaddingSize :: int where "gridPaddingSize = 5"
definition gridCellColor :: string where "gridCellColor = ''#2d3748''"

definition cellSize :: "grid_props \<Rightarrow> int" where
  "cellSize props = (case prop_gridCellSize props of Some v \<Rightarrow> v | None \<Rightarrow> gridCellSize)"

definition gapSize :: "grid_props \<Rightarrow> int" where
  "gapSize props = (case prop_gridPaddingSize props of Some v \<Rightarrow> v | None \<Rightarrow> gridPaddingSize)"

definition containerPadding :: "grid_props \<Rightarrow> int" where
  "containerPadding props = gapSize props + 3"

definition Math_floor :: "rat \<Rightarrow> int" where
  "Math_floor x = \<lfloor>x\<rfloor>"

definition Math_round :: "rat \<Rightarrow> int" where
  "Math_round x = \<lfloor>x + 1 / 2\<rfloor>"

record point =
  pt_x :: int
  pt_y :: int

record dom_rect =
  rect_left :: int
  rect_top :: int

record placed_piece =
  pc_id :: string
  pc_type :: string
  pc_pattern :: pattern
  pc_originalPattern :: pattern
  pc_color :: string
  pc_row :: int
  pc_col :: int
  pc_rotation :: int

record mini =
  mini_pattern :: pattern
  mini_color :: string

record grid_state =
  pieces :: "placed_piece list"
  walls :: "string set"
  markedCells :: "string set"
  cellMinis :: "string \<rightharpoonup> mini"

definition initial_state :: grid_state where
  "initial_state = \<lparr>pieces = [], walls = {}, markedCells = {}, cellMinis = Map.empty\<rparr>"

text \<open>
  A drag item. A missing pattern or pointer offset is \<open>None\<close>; a missing piece id is
  \<open>None\<close>, and the empty string is falsy as well.
\<close>

record drag_item =
  it_pattern :: "pattern option"
  it_type :: string
  it_color :: string
  it_pieceId :: "string option"
  it_pointerOffset :: "point option"

text \<open>The pixel values that the model covers, and a drop all of whose inputs are such.\<close>

definition pixel :: "int \<Rightarrow> bool" where
  "pixel v = (- (2 ^ 31) \<le> v \<and> v < 2 ^ 31)"

definition pixelInputs :: "grid_props \<Rightarrow> dom_rect \<Rightarrow> point option \<Rightarrow> point \<Rightarrow> bool" where
  "pixelInputs props rect pointerOffsetOpt clientOffset =
     (pixel (cellSize props) \<and> pixel (gapSize props)
      \<and> pixel (rect_left rect) \<and> pixel (rect_top rect)
      \<and> pixel (pt_x clientOffset) \<and> pixel (pt_y clientOffset)
      \<and> (case pointerOffsetOpt of None \<Rightarrow> True | Some q \<Rightarrow> pixel (pt_x q) \<and> pixel (pt_y q)))"

subsection \<open>Cell identifiers\<close>

text \<open>The template string \<^verbatim>\<open>`${row}-${col}`\<close> of two integers, in decimal.\<close>

definition digit :: "nat \<Rightarrow> char" where
  "digit d = ''0123456789'' ! d"

function nat_to_string :: "nat \<Rightarrow> string" where
  "nat_to_string n = (if n < 10 then [digit n] else nat_to_string (n div 10) @ [digit (n mod 10)])"
  by pat_completeness auto
termination
  by (relation "measure id") auto

definition int_to_string :: "int \<Rightarrow> string" where
  "int_to_string i = (if i < 0 then CHR ''-'' # nat_to_string (nat (- i)) else nat_to_string (nat i))"

definition cellId :: "int \<Rightarrow> int \<Rightarrow> string" where
  "cellId row col = int_to_string row @ ''-'' @ int_to_string col"

subsection \<open>From pointer to origin cell\<close>

text \<open>
  The block index of the grab offset on one axis: the floor of the offset over the pitch,
  raised to 0 when negative, then lowered to \<open>extent - 1\<close> when not below the extent.
\<close>

definition blockIndex :: "int \<Rightarrow> int \<Rightarrow> int \<Rightarrow> int" where
  "blockIndex offset pitch extent =
     (let b = Math_floor (rat_of_int offset / rat_of_int pitch);
          b = (if b < 0 then 0 else b);
          b = (if b \<ge> extent then extent - 1 else b)
      in b)"

text \<open>
  The lines that \<^verbatim>\<open>handleDrop\<close> and \<^verbatim>\<open>getHoverCells\<close> share: the origin
  \<open>(row, col)\<close> of the pattern for a pointer at \<open>clientOffset\<close>. The pattern has a first row
  when this is reached.
\<close>

definition originCell :: "grid_props \<Rightarrow> dom_rect \<Rightarrow> point option \<Rightarrow> pattern \<Rightarrow> point \<Rightarrow> int \<times> int" where
  "originCell props rect pointerOffsetOpt pattern clientOffset =
     (let padding = containerPadding props;
          pointerOffset = (case pointerOffsetOpt of Some q \<Rightarrow> q | None \<Rightarrow> \<lparr>pt_x = 0, pt_y = 0\<rparr>);
          patternCols = int (length (pattern ! 0));
          patternRows = int (length pattern);
          blockIndexX = blockIndex (pt_x pointerOffset) (cellSize props + gapSize props) patternCols;
          blockIndexY = blockIndex (pt_y pointerOffset) (cellSize props + gapSize props) patternRows;
          xInGrid = pt_x clientOffset - rect_left rect - padding;
          yInGrid = pt_y clientOffset - rect_top rect - padding;
          col = Math_round (rat_of_int xInGrid / rat_of_int (cellSize props + gapSize props)) - blockIndexX;
          row = Math_round (rat_of_int yInGrid / rat_of_int (cellSize props + gapSize props)) - blockIndexY
      in (row, col))"

text \<open>The single-cell addressing of an edition-mode drop: \<open>(rowCell, colCell)\<close>.\<close>

definition editionCell :: "grid_props \<Rightarrow> dom_rect \<Rightarrow> point \<Rightarrow> int \<times> int" where
  "editionCell props rect clientOffset =
     (let padding = containerPadding props;
          xInGrid = pt_x clientOffset - rect_left rect - padding;
          yInGrid = pt_y clientOffset - rect_top rect - padding;
          colCell = Math_round (rat_of_int xInGrid / rat_of_int (cellSize props + gapSize props));
          rowCell = Math_round (rat_of_int yInGrid / rat_of_int (cellSize props + gapSize props))
      in (rowCell, colCell))"

text \<open>
  The bounds check of \<^verbatim>\<open>handleDrop\<close>: some iteration of the two loops reaches the
  \<^verbatim>\<open>return\<close>, that is, a set cell has its target outside the grid.
\<close>

definition doesNotFit :: "grid_props \<Rightarrow> pattern \<Rightarrow> int \<Rightarrow> int \<Rightarrow> bool" where
  "doesNotFit props pattern row col =
     list_ex (\<lambda>i. list_ex (\<lambda>j.
         truthy (pattern ! i ! j) \<and>
         (let targetRow = row + int i; targetCol = col + int j
          in targetRow \<ge> prop_rows props \<or> targetCol \<ge> prop_cols props \<or> targetRow < 0 \<or> targetCol < 0))
       [0..<length (pattern ! i)]) [0..<length pattern]"

subsection \<open>handleDrop\<close>

text \<open>
  \<^verbatim>\<open>handleDrop\<close> reads three things besides its arguments: the container element (absent
  is \<open>None\<close>), the \<^verbatim>\<open>pieces\<close> of the render that created the closure, here \<open>snapshot\<close>,
  and the clock and random source of a new id, here the string \<open>fresh\<close>. Its state updates
  are functional (\<^verbatim>\<open>setPieces(prev => ...)\<close>), so they apply to the state \<open>prev\<close> at update
  time. The result is \<open>None\<close> when the function returns before calling a state setter.
\<close>

definition isFalsyId :: "string option \<Rightarrow> bool" where
  "isFalsyId pieceId = (pieceId = None \<or> pieceId = Some [])"

text \<open>\<^verbatim>\<open>pieceId || `piece-${Date.now()}-${Math.random()}`\<close>\<close>

definition idOrFresh :: "string option \<Rightarrow> string \<Rightarrow> string" where
  "idOrFresh pieceId fresh = (case pieceId of None \<Rightarrow> fresh | Some s \<Rightarrow> if s = [] then fresh else s)"

text \<open>
  Lines 134 to 147: the new piece. The original pattern and the rotation are those of the
  piece with this id in \<open>snapshot\<close>, when there is one (an array is truthy; a rotation of 0
  is falsy and replaced by 0).
\<close>

definition newPiece :: "placed_piece list \<Rightarrow> string \<Rightarrow> drag_item \<Rightarrow> pattern \<Rightarrow> int \<Rightarrow> int \<Rightarrow> placed_piece" where
  "newPiece snapshot fresh item pattern row col =
     (let pieceId = it_pieceId item;
          existingPiece = find (\<lambda>p. Some (pc_id p) = pieceId) snapshot;
          originalPattern = (case existingPiece of Some p \<Rightarrow> pc_originalPattern p | None \<Rightarrow> pattern);
          currentRotation = (case existingPiece of Some p \<Rightarrow> pc_rotation p | None \<Rightarrow> 0)
      in \<lparr>pc_id = idOrFresh pieceId fresh,
          pc_type = it_type item,
          pc_pattern = pattern,
          pc_originalPattern = originalPattern,
          pc_color = it_color item,
          pc_row = row,
          pc_col = col,
          pc_rotation = currentRotation\<rparr>)"

text \<open>Lines 149 to 152: the updater of \<^verbatim>\<open>setPieces\<close>.\<close>

definition replacePiece :: "string option \<Rightarrow> placed_piece \<Rightarrow> placed_piece list \<Rightarrow> placed_piece list" where
  "replacePiece pieceId piece prev =
     (let without = filter (\<lambda>p. \<not> (\<not> isFalsyId pieceId \<and> Some (pc_id p) = pieceId)) prev
      in without @ [piece])"

definition handleDrop ::
  "grid_props \<Rightarrow> dom_rect option \<Rightarrow> placed_piece list \<Rightarrow> string \<Rightarrow>
   drag_item \<Rightarrow> point option \<Rightarrow> grid_state \<Rightarrow> grid_state option" where
  "handleDrop props container snapshot fresh item clientOffsetOpt prev =
     (case (clientOffsetOpt, container) of
        (Some clientOffset, Some rect) \<Rightarrow>
          (case it_pattern item of
             None \<Rightarrow> None
           | Some pattern \<Rightarrow>
               if pattern = [] then None
               else if prop_editionMode props then
                 (let (rowCell, colCell) = editionCell props rect clientOffset
                  in if colCell < 0 \<or> colCell \<ge> prop_cols props \<or> rowCell < 0 \<or> rowCell \<ge> prop_rows props
                     then None
                     else
                       (let cell = cellId rowCell colCell;
                            clonedPattern = map (\<lambda>r. r) pattern
                        in Some (prev\<lparr>cellMinis := (cellMinis prev)
                                          (cell \<mapsto> \<lparr>mini_pattern = clonedPattern, mini_color = it_color item\<rparr>),
                                       markedCells := markedCells prev - {cell}\<rparr>)))
               else
                 (let (row, col) = originCell props rect (it_pointerOffset item) pattern clientOffset
                  in if doesNotFit props pattern row col then None
                     else
                       (let piece = newPiece snapshot fresh item pattern row col
                        in Some (prev\<lparr>pieces := replacePiece (it_pieceId item) piece (pieces prev)\<rparr>))))
      | _ \<Rightarrow> None)"

subsection \<open>The other operations\<close>

definition removePiece :: "string \<Rightarrow> grid_state \<Rightarrow> grid_state" where
  "removePiece ident prev = prev\<lparr>pieces := filter (\<lambda>p. pc_id p \<noteq> ident) (pieces prev)\<rparr>"

text \<open>
  \<^verbatim>\<open>rotatePiece\<close> maps over the pieces; the rotation of a piece with no row throws, and
  the exception leaves the updater. Rotations are never negative, so \<^verbatim>\<open>%\<close> is \<open>mod\<close>.
\<close>

fun rotatePieces :: "string \<Rightarrow> placed_piece list \<Rightarrow> error + placed_piece list" where
  "rotatePieces ident [] = Inr []"
| "rotatePieces ident (p # ps) =
     (if pc_id p = ident then
        (case rotatePattern (pc_pattern p) of
           Inl e \<Rightarrow> Inl e
         | Inr rotatedPattern \<Rightarrow>
             (case rotatePieces ident ps of
                Inl e \<Rightarrow> Inl e
              | Inr qs \<Rightarrow> Inr (p\<lparr>pc_pattern := rotatedPattern,
                                 pc_rotation := (pc_rotation p + 90) mod 360\<rparr> # qs)))
      else
        (case rotatePieces ident ps of Inl e \<Rightarrow> Inl e | Inr qs \<Rightarrow> Inr (p # qs)))"

definition rotatePiece :: "string \<Rightarrow> grid_state \<Rightarrow> error + grid_state" where
  "rotatePiece ident prev =
     (case rotatePieces ident (pieces prev) of
        Inl e \<Rightarrow> Inl e
      | Inr ps \<Rightarrow> Inr (prev\<lparr>pieces := ps\<rparr>))"

definition toggleWall :: "string \<Rightarrow> grid_state \<Rightarrow> grid_state" where
  "toggleWall wallId prev =
     prev\<lparr>walls := (if wallId \<in> walls prev then walls prev - {wallId} else insert wallId (walls prev))\<rparr>"

definition clearGrid :: "grid_state \<Rightarrow> grid_state" where
  "clearGrid prev = \<lparr>pieces = [], walls = {}, markedCells = {}, cellMinis = Map.empty\<rparr>"

text \<open>
  \<^verbatim>\<open>toggleMarkedCell\<close> tests the \<^verbatim>\<open>cellMinis\<close> of the render that created the closure,
  here \<open>minisSnapshot\<close>, and updates the state \<open>prev\<close> at update time.
\<close>

definition toggleMarkedCell :: "(string \<rightharpoonup> mini) \<Rightarrow> string \<Rightarrow> grid_state \<Rightarrow> grid_state" where
  "toggleMarkedCell minisSnapshot cell prev =
     (if minisSnapshot cell \<noteq> None
      then prev\<lparr>cellMinis := (cellMinis prev)(cell := None)\<rparr>
      else prev\<lparr>markedCells :=
                  (if cell \<in> markedCells prev then markedCells prev - {cell}
                   else insert cell (markedCells prev))\<rparr>)"

subsection \<open>getHoverCells and getCellColor\<close>

definition hover_body :: "grid_props \<Rightarrow> pattern \<Rightarrow> int \<Rightarrow> int \<Rightarrow> nat \<Rightarrow> nat \<Rightarrow> string set \<Rightarrow> string set" where
  "hover_body props pattern row col i j hoverCells =
     (if truthy (pattern ! i ! j) then
        (let targetRow = row + int i; targetCol = col + int j
         in if targetRow \<ge> 0 \<and> targetRow < prop_rows props \<and> targetCol \<ge> 0 \<and> targetCol < prop_cols props
            then insert (cellId targetRow targetCol) hoverCells
            else hoverCells)
      else hoverCells)"

definition hover_loops :: "grid_props \<Rightarrow> pattern \<Rightarrow> int \<Rightarrow> int \<Rightarrow> string set" where
  "hover_loops props pattern row col =
     fold (\<lambda>i. fold (hover_body props pattern row col i) [0..<length (pattern ! i)])
       [0..<length pattern] {}"

text \<open>
  \<^verbatim>\<open>getHoverCells\<close> reads the drag layer (\<^verbatim>\<open>isDragging\<close>, \<^verbatim>\<open>dragItem\<close>,
  \<^verbatim>\<open>dragClientOffset\<close>), the container and the props. It takes no grid state and returns
  none: the only thing it writes is its own local set.
\<close>

definition getHoverCells ::
  "grid_props \<Rightarrow> dom_rect option \<Rightarrow> bool \<Rightarrow> drag_item option \<Rightarrow> point option \<Rightarrow> string set" where
  "getHoverCells props container isDragging dragItem dragClientOffset =
     (if \<not> isDragging \<or> prop_editionMode props then {}
      else
        (case (dragItem, dragClientOffset, container) of
           (Some item, Some clientOffset, Some rect) \<Rightarrow>
             (case it_pattern item of
                None \<Rightarrow> {}
              | Some pattern \<Rightarrow>
                  if pattern = [] then {}
                  else
                    (let (row, col) = originCell props rect (it_pointerOffset item) pattern clientOffset
                     in hover_loops props pattern row col))
         | _ \<Rightarrow> {}))"

text \<open>
  The two inner loops of \<^verbatim>\<open>getCellColor\<close> reach the \<^verbatim>\<open>return\<close> for this piece.
\<close>

definition pieceCovers :: "placed_piece \<Rightarrow> int \<Rightarrow> int \<Rightarrow> bool" where
  "pieceCovers piece row col =
     list_ex (\<lambda>r. list_ex (\<lambda>c.
         truthy (pc_pattern piece ! r ! c) \<and> pc_row piece + int r = row \<and> pc_col piece + int c = col)
       [0..<length (pc_pattern piece ! r)]) [0..<length (pc_pattern piece)]"

text \<open>The outer loop runs from the last piece down to the first: the list reversed.\<close>

fun scanPieces :: "placed_piece list \<Rightarrow> int \<Rightarrow> int \<Rightarrow> string option" where
  "scanPieces [] row col = None"
| "scanPieces (piece # rest) row col =
     (if pieceCovers piece row col then Some (pc_color piece) else scanPieces rest row col)"

definition getCellColor :: "placed_piece list \<Rightarrow> int \<Rightarrow> int \<Rightarrow> string option" where
  "getCellColor ps row col = scanPieces (rev ps) row col"

text \<open>\<^verbatim>\<open>backgroundColor: cellColor || gridCellColor\<close>; the empty string is falsy.\<close>

definition cellBackground :: "placed_piece list \<Rightarrow> int \<Rightarrow> int \<Rightarrow> string" where
  "cellBackground ps row col =
     (case getCellColor ps row col of
        None \<Rightarrow> gridCellColor
      | Some c \<Rightarrow> if c = [] then gridCellColor else c)"

text \<open>The footprint of a placed piece: its set cells, offset by its origin.\<close>

definition inFootprint :: "placed_piece \<Rightarrow> int \<Rightarrow> int \<Rightarrow> bool" where
  "inFootprint piece row col =
     (let r = row - pc_row piece; c = col - pc_col piece
      in 0 \<le> r \<and> 0 \<le> c \<and> cellSet (pc_pattern piece) (nat r) (nat c))"

subsection \<open>A drag session of a placed piece\<close>

text \<open>
  \<^verbatim>\<open>PieceOverlay\<close> is the drag source of a placed piece; the grid container is the only
  drop target. react-dnd calls the target's \<^verbatim>\<open>drop\<close> when the pointer is released over
  the target, and \<^verbatim>\<open>monitor.didDrop()\<close> is then true in the source's \<^verbatim>\<open>end\<close> handler;
  released anywhere else, no \<^verbatim>\<open>drop\<close> runs and \<^verbatim>\<open>didDrop()\<close> is false.
  The session returns the state setters that were reached, in order, and the state.
\<close>

datatype release = OverGrid "point option" | OutsideGrid

datatype terminal = Place | DropMini | Remove

definition overlayItem :: "placed_piece \<Rightarrow> point \<Rightarrow> drag_item" where
  "overlayItem piece dragStartOffset =
     \<lparr>it_pattern = Some (pc_pattern piece), it_type = pc_type piece, it_color = pc_color piece,
      it_pieceId = Some (pc_id piece), it_pointerOffset = Some dragStartOffset\<rparr>"

definition dragSession ::
  "grid_props \<Rightarrow> dom_rect option \<Rightarrow> placed_piece list \<Rightarrow> string \<Rightarrow>
   placed_piece \<Rightarrow> point \<Rightarrow> release \<Rightarrow> grid_state \<Rightarrow> terminal list \<times> grid_state" where
  "dragSession props container snapshot fresh piece dragStartOffset rel s =
     (let item = overlayItem piece dragStartOffset;
          (fired, s1, didDrop) =
            (case rel of
               OverGrid clientOffset \<Rightarrow>
                 (case handleDrop props container snapshot fresh item clientOffset s of
                    None \<Rightarrow> ([], s, True)
                  | Some s' \<Rightarrow> ([if prop_editionMode props then DropMini else Place], s', True))
             | OutsideGrid \<Rightarrow> ([], s, False))
      in if \<not> didDrop then (fired @ [Remove], removePiece (pc_id piece) s1) else (fired, s1))"

subsection \<open>The mounted component\<close>

text \<open>
  The grid state together with the edition mode and the \<^verbatim>\<open>pieces\<close> that the drop handler
  closes over. \<^verbatim>\<open>useDrop\<close> is given the dependency list
  \<^verbatim>\<open>[editionMode, rows, cols, cellSize]\<close>: its \<^verbatim>\<open>drop\<close>, and the \<^verbatim>\<open>handleDrop\<close> it calls,
  are those of the last render in which one of these changed. Rows and columns are fixed
  while the component is mounted (the key of the component changes with them), so the
  closure is renewed when the edition mode is toggled. The click handlers are created
  anew in every render and see the current state.

  An event is refused (\<open>None\<close>) when the view does not offer it: piece overlays exist in
  placement mode only, cell and wall clicks in edition mode only; a rotation that throws
  is refused as well. A new id is taken to be non-empty and not in use.
\<close>

record component =
  cp_state :: grid_state
  cp_editionMode :: bool
  cp_dropPieces :: "placed_piece list"

datatype event =
    Drop drag_item "point option" string
  | RemovePiece string
  | RotatePiece string
  | ToggleWall string
  | ToggleMarkedCell string
  | ClearGrid
  | ToggleEditionMode

definition mount :: "grid_props \<Rightarrow> component" where
  "mount props = \<lparr>cp_state = initial_state, cp_editionMode = prop_editionMode props, cp_dropPieces = []\<rparr>"

definition hasPiece :: "string \<Rightarrow> grid_state \<Rightarrow> bool" where
  "hasPiece ident s = list_ex (\<lambda>p. pc_id p = ident) (pieces s)"

fun step :: "grid_props \<Rightarrow> dom_rect option \<Rightarrow> component \<Rightarrow> event \<Rightarrow> component option" where
  "step props container c (Drop item clientOffset fresh) =
     (if fresh = [] \<or> hasPiece fresh (cp_state c) then None
      else
        (case handleDrop (props\<lparr>prop_editionMode := cp_editionMode c\<rparr>) container
                (cp_dropPieces c) fresh item clientOffset (cp_state c) of
           None \<Rightarrow> Some c
         | Some s' \<Rightarrow> Some (c\<lparr>cp_state := s'\<rparr>)))"
| "step props container c (RemovePiece ident) =
     (if cp_editionMode c \<or> \<not> hasPiece ident (cp_state c) then None
      else Some (c\<lparr>cp_state := removePiece ident (cp_state c)\<rparr>))"
| "step props container c (RotatePiece ident) =
     (if cp_editionMode c \<or> \<not> hasPiece ident (cp_state c) then None
      else
        (case rotatePiece ident (cp_state c) of
           Inl e \<Rightarrow> None
         | Inr s' \<Rightarrow> Some (c\<lparr>cp_state := s'\<rparr>)))"
| "step props container c (ToggleWall wallId) =
     (if cp_editionMode c then Some (c\<lparr>cp_state := toggleWall wallId (cp_state c)\<rparr>) else None)"
| "step props container c (ToggleMarkedCell cell) =
     (if cp_editionMode c
      then Some (c\<lparr>cp_state := toggleMarkedCell (cellMinis (cp_state c)) cell (cp_state c)\<rparr>)
      else None)"
| "step props container c ClearGrid = Some (c\<lparr>cp_state := clearGrid (cp_state c)\<rparr>)"
| "step props container c ToggleEditionMode =
     Some (c\<lparr>cp_editionMode := \<not> cp_editionMode c, cp_dropPieces := pieces (cp_state c)\<rparr>)"

fun run :: "grid_props \<Rightarrow> dom_rect option \<Rightarrow> component \<Rightarrow> event list \<Rightarrow> component option" where
  "run props container c [] = Some c"
| "run props container c (e # es) =
     (case step props container c e of None \<Rightarrow> None | Some c' \<Rightarrow> run props container c' es)"

inductive reachable :: "grid_props \<Rightarrow> dom_rect option \<Rightarrow> component \<Rightarrow> bool"
  for props :: grid_props and container :: "dom_rect option" where
  mounted: "reachable props container (mount props)"
| stepped: "reachable props container c \<Longrightarrow> step props container c e = Some c' \<Longrightarrow>
            reachable props container c'"

section \<open>Auxiliary notions for the proofs\<close>

text \<open>The dimensions of a matrix, by index.\<close>

definition dims :: "nat \<Rightarrow> nat \<Rightarrow> pattern \<Rightarrow> bool" where
  "dims n m p = (length p = n \<and> (\<forall>j<n. length (p ! j) = m))"

text \<open>
  The scan of \<^verbatim>\<open>trimPattern\<close> as one loop over the list of positions, and the set cells
  among a list of positions.
\<close>

definition scanStep :: "nat \<times> nat \<Rightarrow> trim_vars \<Rightarrow> trim_vars" where
  "scanStep = (\<lambda>q. trim_scan_body (fst q) (snd q))"

definition positions :: "pattern \<Rightarrow> (nat \<times> nat) list" where
  "positions p = concat (map (\<lambda>i. map (Pair i) [0..<length (p ! i)]) [0..<length p])"

definition seenSet :: "pattern \<Rightarrow> (nat \<times> nat) list \<Rightarrow> (nat \<times> nat) set" where
  "seenSet p qs = {q \<in> set qs. truthy (cellAt (p ! fst q) (snd q))}"

text \<open>The two invariants of the grid state: no cell both marked and with a mini; piece ids distinct.\<close>

definition exclusive :: "grid_state \<Rightarrow> bool" where
  "exclusive s = (markedCells s \<inter> dom (cellMinis s) = {})"

definition distinctIds :: "grid_state \<Rightarrow> bool" where
  "distinctIds s = distinct (map pc_id (pieces s))"

section \<open>Concrete inputs\<close>

text \<open>
  The grid as the application mounts it: five rows and columns, the default sizes
  (cell 30, gap 5, hence padding 8), in placement mode and in edition mode.
\<close>

definition props5 :: grid_props where
  "props5 = \<lparr>prop_rows = 5, prop_cols = 5, prop_editionMode = False,
             prop_gridCellSize = None, prop_gridPaddingSize = None\<rparr>"

definition propsE :: grid_props where
  "propsE = props5\<lparr>prop_editionMode := True\<rparr>"

text \<open>A vertical 2 by 1 palette item, grabbed at pixel (10, 40) of its bounding box.\<close>

definition itemI2 :: drag_item where
  "itemI2 = \<lparr>it_pattern = Some [[Num 1], [Num 1]], it_type = ''I2'', it_color = ''#F5BE02'',
             it_pieceId = None, it_pointerOffset = Some \<lparr>pt_x = 10, pt_y = 40\<rparr>\<rparr>"

text \<open>
  Two horizontal 1 by 2 pieces on the same cells \<open>(0, 0)\<close> and \<open>(0, 1)\<close>, in two colors, and
  the state that holds the first.
\<close>

definition pieceA :: placed_piece where
  "pieceA = \<lparr>pc_id = ''piece-1'', pc_type = ''I2'', pc_pattern = [[Num 1, Num 1]],
             pc_originalPattern = [[Num 1, Num 1]], pc_color = ''#F5BE02'',
             pc_row = 0, pc_col = 0, pc_rotation = 0\<rparr>"

definition pieceB :: placed_piece where
  "pieceB = \<lparr>pc_id = ''piece-2'', pc_type = ''I2'', pc_pattern = [[Num 1, Num 1]],
             pc_originalPattern = [[Num 1, Num 1]], pc_color = ''#3182CE'',
             pc_row = 0, pc_col = 0, pc_rotation = 0\<rparr>"

definition stateA :: grid_state where
  "stateA = \<lparr>pieces = [pieceA], walls = {}, markedCells = {}, cellMinis = Map.empty\<rparr>"

text \<open>The palette item placed at \<open>(2, 1)\<close> and rotated once.\<close>

definition pieceRotated :: placed_piece where
  "pieceRotated = \<lparr>pc_id = ''piece-1'', pc_type = ''I2'', pc_pattern = [[Num 1, Num 1]],
                   pc_originalPattern = [[Num 1], [Num 1]], pc_color = ''#F5BE02'',
                   pc_row = 2, pc_col = 1, pc_rotation = 90\<rparr>"

text \<open>An edition-mode component with a mini on cell \<open>(0, 0)\<close> and a marker on cell \<open>(1, 1)\<close>.\<close>

definition componentB :: component where
  "componentB =
     \<lparr>cp_state = \<lparr>pieces = [], walls = {}, markedCells = {''1-1''},
                   cellMinis = [''0-0'' \<mapsto> \<lparr>mini_pattern = [[Num 1], [Num 1]], mini_color = ''#F5BE02''\<rparr>]\<rparr>,
      cp_editionMode = True, cp_dropPieces = []\<rparr>"

section \<open>Rotation: the loops in closed form\<close>


lemma rotate_body_pattern [simp]: "rv_pattern (rotate_body rows i j v) = rv_pattern v"
  by (simp add: rotate_body_def)

lemma rotate_body_dims:
  "dims cols rows (rv_rotated v) \<Longrightarrow> dims cols rows (rv_rotated (rotate_body rows i j v))"
proof -
  assume d: "dims cols rows (rv_rotated v)"
  have "length ((rv_rotated v)[j := (rv_rotated v ! j)[rows - 1 - i := c]] ! a) = rows"
    if "a < cols" for a c
    using d that by (cases "a = j") (simp_all add: dims_def)
  then show ?thesis
    using d by (simp add: rotate_body_def dims_def)
qed

lemma rotate_body_nth:
  assumes "dims cols rows (rv_rotated v)" "j < cols" "i < rows" "a < cols" "b < rows"
  shows "rv_rotated (rotate_body rows i j v) ! a ! b =
           (if a = j \<and> b = rows - 1 - i then cellAt (rv_pattern v ! i) j
            else rv_rotated v ! a ! b)"
  using assms by (auto simp: rotate_body_def dims_def nth_list_update)

lemma rotate_inner_upto:
  assumes "dims cols rows (rv_rotated v)" "i < rows" "m \<le> cols"
  shows "rv_pattern (fold (rotate_body rows i) [0..<m] v) = rv_pattern v
       \<and> dims cols rows (rv_rotated (fold (rotate_body rows i) [0..<m] v))
       \<and> (\<forall>a<cols. \<forall>b<rows.
            rv_rotated (fold (rotate_body rows i) [0..<m] v) ! a ! b =
              (if a < m \<and> b = rows - 1 - i then cellAt (rv_pattern v ! i) a
               else rv_rotated v ! a ! b))"
  using assms(3)
proof (induction m)
  case 0
  show ?case using assms(1) by simp
next
  case (Suc m)
  let ?w = "fold (rotate_body rows i) [0..<m] v"
  have ih: "rv_pattern ?w = rv_pattern v" "dims cols rows (rv_rotated ?w)"
    "\<forall>a<cols. \<forall>b<rows. rv_rotated ?w ! a ! b =
        (if a < m \<and> b = rows - 1 - i then cellAt (rv_pattern v ! i) a else rv_rotated v ! a ! b)"
    using Suc by simp_all
  have m: "m < cols" using Suc.prems by simp
  have step: "fold (rotate_body rows i) [0..<Suc m] v = rotate_body rows i m ?w"
    by simp
  show ?case
    unfolding step
    using ih m assms(2)
    by (auto simp: rotate_body_dims rotate_body_nth [where cols = cols] less_Suc_eq)
qed

lemma rotate_inner_spec:
  assumes "dims cols rows (rv_rotated v)" "i < rows"
  shows "rv_pattern (rotate_inner rows cols i v) = rv_pattern v"
    and "dims cols rows (rv_rotated (rotate_inner rows cols i v))"
    and "a < cols \<Longrightarrow> b < rows \<Longrightarrow>
           rv_rotated (rotate_inner rows cols i v) ! a ! b =
             (if b = rows - 1 - i then cellAt (rv_pattern v ! i) a else rv_rotated v ! a ! b)"
  using rotate_inner_upto [OF assms, of cols] by (simp_all add: rotate_inner_def)

lemma rotate_loops_upto:
  assumes "dims cols rows (rv_rotated v)" "n \<le> rows"
  shows "rv_pattern (fold (rotate_inner rows cols) [0..<n] v) = rv_pattern v
       \<and> dims cols rows (rv_rotated (fold (rotate_inner rows cols) [0..<n] v))
       \<and> (\<forall>a<cols. \<forall>b<rows.
            rv_rotated (fold (rotate_inner rows cols) [0..<n] v) ! a ! b =
              (if rows - 1 - b < n then cellAt (rv_pattern v ! (rows - 1 - b)) a
               else rv_rotated v ! a ! b))"
  using assms(2)
proof (induction n)
  case 0
  show ?case using assms(1) by simp
next
  case (Suc n)
  let ?w = "fold (rotate_inner rows cols) [0..<n] v"
  have ih: "rv_pattern ?w = rv_pattern v" "dims cols rows (rv_rotated ?w)"
    "\<forall>a<cols. \<forall>b<rows. rv_rotated ?w ! a ! b =
        (if rows - 1 - b < n then cellAt (rv_pattern v ! (rows - 1 - b)) a
         else rv_rotated v ! a ! b)"
    using Suc by simp_all
  have n: "n < rows" using Suc.prems by simp
  have step: "fold (rotate_inner rows cols) [0..<Suc n] v = rotate_inner rows cols n ?w"
    by simp
  have "\<And>b. b < rows \<Longrightarrow> (b = rows - 1 - n) = (rows - 1 - b = n)"
    using n by auto
  then show ?case
    unfolding step
    using ih n rotate_inner_spec [OF ih(2) n]
    by (auto simp: less_Suc_eq)
qed

lemma rotate_loops_spec:
  assumes "dims cols rows (rv_rotated v)"
  shows "rv_pattern (rotate_loops rows cols v) = rv_pattern v"
    and "dims cols rows (rv_rotated (rotate_loops rows cols v))"
    and "a < cols \<Longrightarrow> b < rows \<Longrightarrow>
           rv_rotated (rotate_loops rows cols v) ! a ! b = cellAt (rv_pattern v ! (rows - 1 - b)) a"
proof -
  note u = rotate_loops_upto [OF assms, of rows, simplified, folded rotate_loops_def]
  show "rv_pattern (rotate_loops rows cols v) = rv_pattern v" using u by simp
  show "dims cols rows (rv_rotated (rotate_loops rows cols v))" using u by simp
  show "a < cols \<Longrightarrow> b < rows \<Longrightarrow>
           rv_rotated (rotate_loops rows cols v) ! a ! b = cellAt (rv_pattern v ! (rows - 1 - b)) a"
    using u by auto
qed

lemma rectangular_dims: "rectangular R C p \<Longrightarrow> dims R C p"
  by (simp add: rectangular_def dims_def list_all_length)

lemma dims_rectangular: "dims R C p \<Longrightarrow> rectangular R C p"
  by (simp add: rectangular_def dims_def list_all_length)

lemma rotatePattern_run_spec:
  assumes "rectangular R C P" "0 < R"
  shows "\<exists>v. rotatePattern_run P = Inr v \<and> rv_pattern v = P \<and> dims C R (rv_rotated v)
           \<and> (\<forall>a<C. \<forall>b<R. rv_rotated v ! a ! b = P ! (R - 1 - b) ! a)"
proof -
  from assms obtain r0 rs where P: "P = r0 # rs"
    by (cases P) (auto simp: rectangular_def)
  have len: "length P = R" "length r0 = C"
    using assms(1) P by (auto simp: rectangular_def)
  have rowlen: "\<And>i. i < R \<Longrightarrow> length (P ! i) = C"
    using rectangular_dims [OF assms(1)] by (simp add: dims_def)
  let ?v0 = "\<lparr>rv_pattern = P, rv_rotated = replicate C (replicate R (Num 0))\<rparr>"
  have d0: "dims C R (rv_rotated ?v0)"
    by (simp add: dims_def)
  have run: "rotatePattern_run P = Inr (rotate_loops R C ?v0)"
    using len unfolding rotatePattern_run_def P by (simp add: Let_def)
  have cells: "rv_rotated (rotate_loops R C ?v0) ! a ! b = P ! (R - 1 - b) ! a"
    if "a < C" "b < R" for a b
  proof -
    have "R - 1 - b < R" using that by simp
    then have "cellAt (P ! (R - 1 - b)) a = P ! (R - 1 - b) ! a"
      using rowlen that by (simp add: cellAt_def)
    then show ?thesis
      using rotate_loops_spec(3) [OF d0 that] by simp
  qed
  show ?thesis
    using run rotate_loops_spec(1,2) [OF d0] cells by simp
qed

lemma rotatePattern_closed:
  assumes "rectangular R C P" "0 < R"
  shows "rotatePattern P = Inr (map (\<lambda>a. map (\<lambda>b. P ! (R - 1 - b) ! a) [0..<R]) [0..<C])"
proof -
  from rotatePattern_run_spec [OF assms] obtain v where
    v: "rotatePattern_run P = Inr v" "dims C R (rv_rotated v)"
       "\<forall>a<C. \<forall>b<R. rv_rotated v ! a ! b = P ! (R - 1 - b) ! a"
    by blast
  have "rv_rotated v = map (\<lambda>a. map (\<lambda>b. P ! (R - 1 - b) ! a) [0..<R]) [0..<C]"
  proof (rule nth_equalityI)
    show "length (rv_rotated v) = length (map (\<lambda>a. map (\<lambda>b. P ! (R - 1 - b) ! a) [0..<R]) [0..<C])"
      using v(2) by (simp add: dims_def)
  next
    fix a assume "a < length (rv_rotated v)"
    then have a: "a < C" using v(2) by (simp add: dims_def)
    have "rv_rotated v ! a = map (\<lambda>b. P ! (R - 1 - b) ! a) [0..<R]"
      using v(2,3) a by (intro nth_equalityI) (simp_all add: dims_def)
    then show "rv_rotated v ! a = map (\<lambda>a. map (\<lambda>b. P ! (R - 1 - b) ! a) [0..<R]) [0..<C] ! a"
      using a by simp
  qed
  then show ?thesis
    using v(1) by (simp add: rotatePattern_def)
qed

lemma rotatePattern_rectangular:
  "rectangular C R (map (\<lambda>a. map (\<lambda>b. P ! (R - 1 - b) ! a) [0..<R]) [0..<C])"
  by (simp add: rectangular_def list_all_length)

lemma rotate_twice:
  assumes "rectangular R C P" "0 < R" "0 < C"
  shows "\<exists>Q1 Q2. rotatePattern P = Inr Q1 \<and> rotatePattern Q1 = Inr Q2 \<and> rectangular R C Q2
            \<and> (\<forall>i<R. \<forall>j<C. Q2 ! i ! j = P ! (R - 1 - i) ! (C - 1 - j))"
proof -
  let ?Q1 = "map (\<lambda>a. map (\<lambda>b. P ! (R - 1 - b) ! a) [0..<R]) [0..<C]"
  let ?Q2 = "map (\<lambda>a. map (\<lambda>b. ?Q1 ! (C - 1 - b) ! a) [0..<C]) [0..<R]"
  have 1: "rotatePattern P = Inr ?Q1"
    by (rule rotatePattern_closed [OF assms(1,2)])
  have 2: "rotatePattern ?Q1 = Inr ?Q2"
    by (rule rotatePattern_closed [OF rotatePattern_rectangular assms(3)])
  have 3: "rectangular R C ?Q2"
    by (rule rotatePattern_rectangular)
  have 4: "?Q2 ! i ! j = P ! (R - 1 - i) ! (C - 1 - j)" if "i < R" "j < C" for i j
    using that by simp
  show ?thesis using 1 2 3 4 by blast
qed

section \<open>Rotation: the claims\<close>

text \<open>
  C5. For a rectangular \<open>R \<times> C\<close> pattern \<open>P\<close> with at least one row, \<^verbatim>\<open>rotatePattern\<close>
  returns a \<open>C \<times> R\<close> matrix \<open>Q\<close> with \<open>Q[j][R-1-i] = P[i][j]\<close> for all \<open>i < R\<close>, \<open>j < C\<close>,
  and the argument is the same after the run as before.
\<close>

theorem rotatePattern_law:
  assumes "rectangular R C P" and "0 < R"
  shows "\<exists>Q v. rotatePattern P = Inr Q \<and> rectangular C R Q
           \<and> (\<forall>i<R. \<forall>j<C. Q ! j ! (R - 1 - i) = P ! i ! j)
           \<and> rotatePattern_run P = Inr v \<and> rv_rotated v = Q \<and> rv_pattern v = P"
proof -
  from rotatePattern_run_spec [OF assms] obtain v where
    v: "rotatePattern_run P = Inr v" "rv_pattern v = P" "dims C R (rv_rotated v)"
       "\<forall>a<C. \<forall>b<R. rv_rotated v ! a ! b = P ! (R - 1 - b) ! a"
    by blast
  have "rv_rotated v ! j ! (R - 1 - i) = P ! i ! j" if "i < R" "j < C" for i j
  proof -
    have "R - 1 - i < R" "R - 1 - (R - 1 - i) = i" using that by simp_all
    then show ?thesis using v(4) that by auto
  qed
  moreover have "rotatePattern P = Inr (rv_rotated v)"
    using v(1) by (simp add: rotatePattern_def)
  ultimately show ?thesis
    using v dims_rectangular by blast
qed

theorem rotatePattern_law_witness:
  "rectangular 2 3 [[Num 1, Num 1, Num 0], [Num 0, Num 1, Num 1]] \<and> (0::nat) < 2 \<and>
   (\<exists>Q v. rotatePattern [[Num 1, Num 1, Num 0], [Num 0, Num 1, Num 1]] = Inr Q \<and> rectangular 3 2 Q
      \<and> (\<forall>i<2. \<forall>j<3. Q ! j ! (2 - 1 - i) = [[Num 1, Num 1, Num 0], [Num 0, Num 1, Num 1]] ! i ! j)
      \<and> rotatePattern_run [[Num 1, Num 1, Num 0], [Num 0, Num 1, Num 1]] = Inr v
      \<and> rv_rotated v = Q \<and> rv_pattern v = [[Num 1, Num 1, Num 0], [Num 0, Num 1, Num 1]])"
proof -
  have r: "rectangular 2 3 [[Num 1, Num 1, Num 0], [Num 0, Num 1, Num 1]]"
    by (simp add: rectangular_def)
  show ?thesis
    using r rotatePattern_law [OF r] by simp
qed

text \<open>
  C6. For a rectangular pattern with at least one row and one column, four rotations
  return the pattern itself.
\<close>

theorem rotate4_identity:
  assumes "rectangular R C P" and "0 < R" and "0 < C"
  shows "rotate4 P = Inr P"
proof -
  from rotate_twice [OF assms] obtain Q1 Q2 where
    a: "rotatePattern P = Inr Q1" "rotatePattern Q1 = Inr Q2" "rectangular R C Q2"
       "\<forall>i<R. \<forall>j<C. Q2 ! i ! j = P ! (R - 1 - i) ! (C - 1 - j)"
    by blast
  from rotate_twice [OF a(3) assms(2,3)] obtain Q3 Q4 where
    b: "rotatePattern Q2 = Inr Q3" "rotatePattern Q3 = Inr Q4" "rectangular R C Q4"
       "\<forall>i<R. \<forall>j<C. Q4 ! i ! j = Q2 ! (R - 1 - i) ! (C - 1 - j)"
    by blast
  have cellwise: "Q4 ! i ! j = P ! i ! j" if "i < R" "j < C" for i j
  proof -
    have "R - 1 - i < R" "C - 1 - j < C" "R - 1 - (R - 1 - i) = i" "C - 1 - (C - 1 - j) = j"
      using that by simp_all
    then show ?thesis using a(4) b(4) that by auto
  qed
  have dP: "dims R C P" and dQ: "dims R C Q4"
    using assms(1) b(3) by (simp_all add: rectangular_dims)
  have "Q4 = P"
  proof (rule nth_equalityI)
    show "length Q4 = length P" using dP dQ by (simp add: dims_def)
  next
    fix i assume "i < length Q4"
    then have i: "i < R" using dQ by (simp add: dims_def)
    show "Q4 ! i = P ! i"
      using dP dQ i cellwise by (intro nth_equalityI) (simp_all add: dims_def)
  qed
  then show ?thesis
    using a(1,2) b(1,2) by (simp add: rotate4_def)
qed

theorem rotate4_identity_witness:
  "rectangular 2 3 [[Num 1, Num 1, Num 0], [Num 0, Num 1, Num 1]] \<and> (0::nat) < 2 \<and> (0::nat) < 3 \<and>
   rotate4 [[Num 1, Num 1, Num 0], [Num 0, Num 1, Num 1]] = Inr [[Num 1, Num 1, Num 0], [Num 0, Num 1, Num 1]]"
proof -
  have r: "rectangular 2 3 [[Num 1, Num 1, Num 0], [Num 0, Num 1, Num 1]]"
    by (simp add: rectangular_def)
  show ?thesis
    using r rotate4_identity [OF r] by simp
qed

section \<open>Trimming: the scan and the box\<close>


lemma trim_scan_body_keeps [simp]:
  "tv_pat (trim_scan_body i j v) = tv_pat v" "tv_trimmed (trim_scan_body i j v) = tv_trimmed v"
  by (simp_all add: trim_scan_body_def)

lemma scanStep_apply: "scanStep q v = trim_scan_body (fst q) (snd q) v"
  by (simp add: scanStep_def)

lemma scanStep_keeps [simp]:
  "tv_pat (scanStep q v) = tv_pat v" "tv_trimmed (scanStep q v) = tv_trimmed v"
  by (simp_all add: scanStep_def)

lemma fold_scanStep_keeps [simp]:
  "tv_pat (fold scanStep qs v) = tv_pat v" "tv_trimmed (fold scanStep qs v) = tv_trimmed v"
  by (induction qs arbitrary: v) simp_all

lemma trim_scan_row_positions:
  "trim_scan_row i v = fold scanStep (map (Pair i) [0..<length (tv_pat v ! i)]) v"
  by (simp add: trim_scan_row_def fold_map scanStep_def comp_def)

lemma trim_scan_rows_positions:
  "fold trim_scan_row is v =
     fold scanStep (concat (map (\<lambda>i. map (Pair i) [0..<length (tv_pat v ! i)]) is)) v"
proof (induction "is" arbitrary: v)
  case Nil
  show ?case by simp
next
  case (Cons i "is")
  show ?case
    by (simp add: Cons.IH trim_scan_row_positions [symmetric])
       (simp add: trim_scan_row_positions)
qed

lemma trim_scan_positions: "trim_scan v = fold scanStep (positions (tv_pat v)) v"
  by (simp add: trim_scan_def positions_def trim_scan_rows_positions)

lemma set_positions: "set (positions p) = {(i, j). i < length p \<and> j < length (p ! i)}"
  by (auto simp: positions_def)

lemma scan_box:
  assumes "\<forall>q\<in>set qs. int (fst q) \<le> tv_minRow v0 \<and> tv_maxRow v0 \<le> int (fst q)
                      \<and> int (snd q) \<le> tv_minCol v0 \<and> tv_maxCol v0 \<le> int (snd q)"
  shows "let v = fold scanStep qs v0; S = seenSet (tv_pat v0) qs in
         if S = {} then
           tv_minRow v = tv_minRow v0 \<and> tv_maxRow v = tv_maxRow v0 \<and>
           tv_minCol v = tv_minCol v0 \<and> tv_maxCol v = tv_maxCol v0
         else
           (\<forall>q\<in>S. tv_minRow v \<le> int (fst q) \<and> int (fst q) \<le> tv_maxRow v
                  \<and> tv_minCol v \<le> int (snd q) \<and> int (snd q) \<le> tv_maxCol v)
           \<and> (\<exists>q\<in>S. int (fst q) = tv_minRow v) \<and> (\<exists>q\<in>S. int (fst q) = tv_maxRow v)
           \<and> (\<exists>q\<in>S. int (snd q) = tv_minCol v) \<and> (\<exists>q\<in>S. int (snd q) = tv_maxCol v)"
  using assms
proof (induction qs rule: rev_induct)
  case Nil
  show ?case by (simp add: seenSet_def)
next
  case (snoc x qs)
  let ?w = "fold scanStep qs v0"
  let ?S = "seenSet (tv_pat v0) qs"
  have ih: "if ?S = {} then
           tv_minRow ?w = tv_minRow v0 \<and> tv_maxRow ?w = tv_maxRow v0 \<and>
           tv_minCol ?w = tv_minCol v0 \<and> tv_maxCol ?w = tv_maxCol v0
         else
           (\<forall>q\<in>?S. tv_minRow ?w \<le> int (fst q) \<and> int (fst q) \<le> tv_maxRow ?w
                  \<and> tv_minCol ?w \<le> int (snd q) \<and> int (snd q) \<le> tv_maxCol ?w)
           \<and> (\<exists>q\<in>?S. int (fst q) = tv_minRow ?w) \<and> (\<exists>q\<in>?S. int (fst q) = tv_maxRow ?w)
           \<and> (\<exists>q\<in>?S. int (snd q) = tv_minCol ?w) \<and> (\<exists>q\<in>?S. int (snd q) = tv_maxCol ?w)"
    using snoc by (simp add: Let_def)
  have x0: "int (fst x) \<le> tv_minRow v0" "tv_maxRow v0 \<le> int (fst x)"
           "int (snd x) \<le> tv_minCol v0" "tv_maxCol v0 \<le> int (snd x)"
    using snoc.prems by simp_all
  show ?case
  proof (cases "truthy (cellAt (tv_pat v0 ! fst x) (snd x))")
    case False
    then have "seenSet (tv_pat v0) (qs @ [x]) = ?S"
      by (auto simp: seenSet_def)
    moreover have "fold scanStep (qs @ [x]) v0 = ?w"
      using False by (simp add: scanStep_apply trim_scan_body_def)
    ultimately show ?thesis using ih by (simp add: Let_def)
  next
    case True
    then have S': "seenSet (tv_pat v0) (qs @ [x]) = insert x ?S"
      by (auto simp: seenSet_def)
    have w': "fold scanStep (qs @ [x]) v0 =
        ?w\<lparr>tv_minRow := min (tv_minRow ?w) (int (fst x)),
            tv_maxRow := max (tv_maxRow ?w) (int (fst x)),
            tv_minCol := min (tv_minCol ?w) (int (snd x)),
            tv_maxCol := max (tv_maxCol ?w) (int (snd x))\<rparr>"
      using True by (simp add: scanStep_apply trim_scan_body_def)
    show ?thesis
    proof (cases "?S = {}")
      case True
      then show ?thesis
        using ih x0 unfolding Let_def S' w' by (simp add: min_def max_def)
    next
      case False
      let ?a = "tv_minRow ?w" and ?b = "tv_maxRow ?w" and ?c = "tv_minCol ?w" and ?d = "tv_maxCol ?w"
      have bnd: "\<forall>q\<in>?S. ?a \<le> int (fst q) \<and> int (fst q) \<le> ?b \<and> ?c \<le> int (snd q) \<and> int (snd q) \<le> ?d"
        and ex: "\<exists>q\<in>?S. int (fst q) = ?a" "\<exists>q\<in>?S. int (fst q) = ?b"
                "\<exists>q\<in>?S. int (snd q) = ?c" "\<exists>q\<in>?S. int (snd q) = ?d"
        using ih False by simp_all
      have 1: "\<forall>q\<in>insert x ?S. min ?a (int (fst x)) \<le> int (fst q) \<and> int (fst q) \<le> max ?b (int (fst x))
                 \<and> min ?c (int (snd x)) \<le> int (snd q) \<and> int (snd q) \<le> max ?d (int (snd x))"
        using bnd by (auto simp: min_le_iff_disj le_max_iff_disj)
      have 2: "\<exists>q\<in>insert x ?S. int (fst q) = min ?a (int (fst x))"
        using ex(1) by (cases "?a \<le> int (fst x)") (auto simp: min_def)
      have 3: "\<exists>q\<in>insert x ?S. int (fst q) = max ?b (int (fst x))"
        using ex(2) by (cases "?b \<le> int (fst x)") (auto simp: max_def)
      have 4: "\<exists>q\<in>insert x ?S. int (snd q) = min ?c (int (snd x))"
        using ex(3) by (cases "?c \<le> int (snd x)") (auto simp: min_def)
      have 5: "\<exists>q\<in>insert x ?S. int (snd q) = max ?d (int (snd x))"
        using ex(4) by (cases "?d \<le> int (snd x)") (auto simp: max_def)
      show ?thesis
        unfolding Let_def S' w' using 1 2 3 4 5 by simp
    qed
  qed
qed



lemma upto_int_upt: "[int a..int b] = map int [a..<Suc b]"
proof (rule nth_equalityI)
  show "length [int a..int b] = length (map int [a..<Suc b])" by auto
next
  fix k assume "k < length [int a..int b]"
  then have "k < Suc b - a" by auto
  then show "[int a..int b] ! k = map int [a..<Suc b] ! k"
    by (simp del: upt_Suc)
qed

lemma trim_push_keeps [simp]:
  "tv_pat (trim_push i v) = tv_pat v" "tv_minCol (trim_push i v) = tv_minCol v"
  "tv_maxCol (trim_push i v) = tv_maxCol v"
  by (simp_all add: trim_push_def)

lemma fold_trim_push:
  "fold trim_push is v =
     v\<lparr>tv_trimmed := tv_trimmed v @ map (\<lambda>i. slice (tv_pat v ! nat i) (tv_minCol v) (tv_maxCol v + 1)) is\<rparr>"
proof (induction "is" arbitrary: v)
  case Nil
  show ?case by simp
next
  case (Cons i "is")
  show ?case
    by (simp add: Cons.IH) (simp add: trim_push_def)
qed

lemma slice_take_drop:
  "c0 \<le> c1 \<Longrightarrow> c1 < length xs \<Longrightarrow> slice xs (int c0) (int c1 + 1) = take (c1 + 1 - c0) (drop c0 xs)"
proof -
  assume a: "c0 \<le> c1" "c1 < length xs"
  have e: "int c1 + 1 = int (Suc c1)" by simp
  show ?thesis
    unfolding e using a by (simp add: slice_def Let_def min_def nat_diff_distrib' del: of_nat_Suc)
qed

lemma rectangular_nth: "rectangular R C P \<Longrightarrow> i < R \<Longrightarrow> length (P ! i) = C"
  by (simp add: rectangular_def list_all_length)

lemma rectangular_length: "rectangular R C P \<Longrightarrow> length P = R"
  by (simp add: rectangular_def)

lemma cellSet_rectangular:
  "rectangular R C P \<Longrightarrow> cellSet P i j = (i < R \<and> j < C \<and> truthy (P ! i ! j))"
  by (auto simp: cellSet_def rectangular_nth rectangular_length)

lemma seenSet_positions: "seenSet P (positions P) = {q. cellSet P (fst q) (snd q)}"
  by (auto simp: seenSet_def set_positions cellSet_def cellAt_def)

lemma hasSetCell_iff: "hasSetCell P = (\<exists>i j. cellSet P i j)"
proof
  assume "hasSetCell P"
  then obtain r c where "r \<in> set P" "c \<in> set r" "truthy c"
    by (auto simp: hasSetCell_def list_ex_iff)
  then obtain i j where "i < length P" "P ! i = r" "j < length r" "r ! j = c"
    by (auto simp: in_set_conv_nth)
  with \<open>truthy c\<close> have "cellSet P i j" by (simp add: cellSet_def)
  then show "\<exists>i j. cellSet P i j" by blast
next
  assume "\<exists>i j. cellSet P i j"
  then obtain i j where "i < length P" "j < length (P ! i)" "truthy (P ! i ! j)"
    by (auto simp: cellSet_def)
  then have "P ! i \<in> set P" "P ! i ! j \<in> set (P ! i)" by simp_all
  with \<open>truthy (P ! i ! j)\<close> show "hasSetCell P"
    unfolding hasSetCell_def list_ex_iff by blast
qed

text \<open>The variables after the scan of a rectangular pattern.\<close>

lemma trim_scan_result:
  assumes "rectangular R C P" and "P = r # rs"
  defines "v0 \<equiv> \<lparr>tv_pat = P, tv_minRow = int (length P), tv_maxRow = - 1,
                  tv_minCol = int (length r), tv_maxCol = - 1, tv_trimmed = []\<rparr>"
  shows "tv_pat (trim_scan v0) = P" and "tv_trimmed (trim_scan v0) = []"
    and "\<not> hasSetCell P \<Longrightarrow> tv_minRow (trim_scan v0) > tv_maxRow (trim_scan v0)"
    and "hasSetCell P \<Longrightarrow>
          \<exists>r0 r1 c0 c1. tv_minRow (trim_scan v0) = int r0 \<and> tv_maxRow (trim_scan v0) = int r1
            \<and> tv_minCol (trim_scan v0) = int c0 \<and> tv_maxCol (trim_scan v0) = int c1
            \<and> (\<forall>i j. cellSet P i j \<longrightarrow> r0 \<le> i \<and> i \<le> r1 \<and> c0 \<le> j \<and> j \<le> c1)
            \<and> (\<exists>j. cellSet P r0 j) \<and> (\<exists>j. cellSet P r1 j)
            \<and> (\<exists>i. cellSet P i c0) \<and> (\<exists>i. cellSet P i c1)"
proof -
  have R: "length P = R" and C: "length r = C"
    using assms(1,2) by (auto simp: rectangular_def)
  have scan: "trim_scan v0 = fold scanStep (positions P) v0"
    by (simp add: trim_scan_positions v0_def)
  show "tv_pat (trim_scan v0) = P" "tv_trimmed (trim_scan v0) = []"
    by (simp_all add: scan) (simp_all add: v0_def)
  have pre: "\<forall>q\<in>set (positions P). int (fst q) \<le> tv_minRow v0 \<and> tv_maxRow v0 \<le> int (fst q)
                      \<and> int (snd q) \<le> tv_minCol v0 \<and> tv_maxCol v0 \<le> int (snd q)"
    using rectangular_nth [OF assms(1)] R C by (auto simp: set_positions v0_def)
  note box = scan_box [OF pre, unfolded Let_def, folded scan]
  have pat0: "tv_pat v0 = P" by (simp add: v0_def)
  have S: "seenSet (tv_pat v0) (positions P) = {q. cellSet P (fst q) (snd q)}"
    by (simp add: pat0 seenSet_positions)
  show "tv_minRow (trim_scan v0) > tv_maxRow (trim_scan v0)" if "\<not> hasSetCell P"
  proof -
    have "seenSet (tv_pat v0) (positions P) = {}"
      using that by (simp add: S hasSetCell_iff)
    then show ?thesis using box by (simp add: v0_def)
  qed
  show "\<exists>r0 r1 c0 c1. tv_minRow (trim_scan v0) = int r0 \<and> tv_maxRow (trim_scan v0) = int r1
            \<and> tv_minCol (trim_scan v0) = int c0 \<and> tv_maxCol (trim_scan v0) = int c1
            \<and> (\<forall>i j. cellSet P i j \<longrightarrow> r0 \<le> i \<and> i \<le> r1 \<and> c0 \<le> j \<and> j \<le> c1)
            \<and> (\<exists>j. cellSet P r0 j) \<and> (\<exists>j. cellSet P r1 j)
            \<and> (\<exists>i. cellSet P i c0) \<and> (\<exists>i. cellSet P i c1)" if "hasSetCell P"
  proof -
    let ?v = "trim_scan v0"
    have ne: "seenSet (tv_pat v0) (positions P) \<noteq> {}"
      using that by (simp add: S hasSetCell_iff)
    note box' = box [unfolded if_not_P [OF ne], unfolded S]
    have bnd: "\<forall>q. cellSet P (fst q) (snd q) \<longrightarrow> tv_minRow ?v \<le> int (fst q) \<and> int (fst q) \<le> tv_maxRow ?v
                  \<and> tv_minCol ?v \<le> int (snd q) \<and> int (snd q) \<le> tv_maxCol ?v"
      using box' by simp
    obtain q1 q2 q3 q4 where
      q: "cellSet P (fst q1) (snd q1)" "int (fst q1) = tv_minRow ?v"
         "cellSet P (fst q2) (snd q2)" "int (fst q2) = tv_maxRow ?v"
         "cellSet P (fst q3) (snd q3)" "int (snd q3) = tv_minCol ?v"
         "cellSet P (fst q4) (snd q4)" "int (snd q4) = tv_maxCol ?v"
      using box' by auto
    have "\<forall>i j. cellSet P i j \<longrightarrow> fst q1 \<le> i \<and> i \<le> fst q2 \<and> snd q3 \<le> j \<and> j \<le> snd q4"
    proof (intro allI impI)
      fix i j assume "cellSet P i j"
      then show "fst q1 \<le> i \<and> i \<le> fst q2 \<and> snd q3 \<le> j \<and> j \<le> snd q4"
        using bnd [rule_format, of "(i, j)"] q(2,4,6,8) by simp
    qed
    then show ?thesis
      using q by (intro exI [of _ "fst q1"] exI [of _ "fst q2"] exI [of _ "snd q3"] exI [of _ "snd q4"])
                 (auto simp del: of_nat_eq_iff)
  qed
qed

lemma trim_box:
  assumes "rectangular R C P" and "hasSetCell P"
  shows "\<exists>r0 r1 c0 c1 v. r0 \<le> r1 \<and> r1 < R \<and> c0 \<le> c1 \<and> c1 < C
           \<and> trimPattern_run P = Inr v \<and> tv_pat v = P
           \<and> tv_trimmed v = map (\<lambda>i. take (c1 + 1 - c0) (drop c0 (P ! i))) [r0..<r1 + 1]
           \<and> (\<forall>i j. cellSet P i j \<longrightarrow> r0 \<le> i \<and> i \<le> r1 \<and> c0 \<le> j \<and> j \<le> c1)
           \<and> (\<exists>j. cellSet P r0 j) \<and> (\<exists>j. cellSet P r1 j)
           \<and> (\<exists>i. cellSet P i c0) \<and> (\<exists>i. cellSet P i c1)"
proof -
  from assms(2) obtain r rs where P: "P = r # rs"
    by (cases P) (auto simp: hasSetCell_def)
  let ?v0 = "\<lparr>tv_pat = P, tv_minRow = int (length P), tv_maxRow = - 1,
              tv_minCol = int (length r), tv_maxCol = - 1, tv_trimmed = []\<rparr>"
  let ?v = "trim_scan ?v0"
  note res = trim_scan_result [OF assms(1) P]
  from res(4) [OF assms(2)] obtain r0 r1 c0 c1 where
    b: "tv_minRow ?v = int r0" "tv_maxRow ?v = int r1" "tv_minCol ?v = int c0" "tv_maxCol ?v = int c1"
       "\<forall>i j. cellSet P i j \<longrightarrow> r0 \<le> i \<and> i \<le> r1 \<and> c0 \<le> j \<and> j \<le> c1"
       "\<exists>j. cellSet P r0 j" "\<exists>j. cellSet P r1 j" "\<exists>i. cellSet P i c0" "\<exists>i. cellSet P i c1"
    by blast
  have le: "r0 \<le> r1" "c0 \<le> c1" using b(5,6) by (meson le_trans)+
  have lt: "r1 < R" "c1 < C"
    using b(7,9) by (auto simp: cellSet_rectangular [OF assms(1)])
  have run: "trimPattern_run P = Inr (fold trim_push [int r0..int r1] ?v)"
    unfolding trimPattern_run_def P [symmetric]
    using le b(1,2) by (simp add: P Let_def)
  have "tv_trimmed (fold trim_push [int r0..int r1] ?v) =
          map (\<lambda>i. take (c1 + 1 - c0) (drop c0 (P ! i))) [r0..<r1 + 1]"
  proof -
    have "slice (P ! i) (int c0) (int c1 + 1) = take (c1 + 1 - c0) (drop c0 (P ! i))"
      if "i \<in> set [r0..<Suc r1]" for i
      using that lt le rectangular_nth [OF assms(1), of i] by (intro slice_take_drop) auto
    then show ?thesis
      by (simp add: fold_trim_push res(1,2) b(3,4) upto_int_upt comp_def del: upt_Suc cong: map_cong)
  qed
  moreover have "tv_pat (fold trim_push [int r0..int r1] ?v) = P"
    by (simp add: fold_trim_push res(1))
  ultimately show ?thesis
    using run le lt b(5-9) by blast
qed

lemma trim_empty:
  assumes "rectangular R C P" and "0 < R" and "\<not> hasSetCell P"
  shows "\<exists>v. trimPattern_run P = Inr v \<and> tv_pat v = P \<and> tv_trimmed v = [[Num 1]]"
proof -
  from assms(1,2) obtain r rs where P: "P = r # rs"
    by (cases P) (auto simp: rectangular_def)
  note res = trim_scan_result [OF assms(1) P]
  show ?thesis
    unfolding trimPattern_run_def P [symmetric]
    using res(3) [OF assms(3)] res(1) by (simp add: P Let_def)
qed



text \<open>The rows \<open>r0..r1\<close> and columns \<open>c0..c1\<close> of a rectangular pattern.\<close>

lemma box_rectangular:
  assumes "rectangular R C P" "r0 \<le> r1" "r1 < R" "c0 \<le> c1" "c1 < C"
  defines "T \<equiv> map (\<lambda>i. take (c1 + 1 - c0) (drop c0 (P ! i))) [r0..<r1 + 1]"
  shows "rectangular (r1 + 1 - r0) (c1 + 1 - c0) T"
    and "a < r1 + 1 - r0 \<Longrightarrow> b < c1 + 1 - c0 \<Longrightarrow> T ! a ! b = P ! (r0 + a) ! (c0 + b)"
    and "cellSet T a b = (a < r1 + 1 - r0 \<and> b < c1 + 1 - c0 \<and> cellSet P (r0 + a) (c0 + b))"
proof -
  have len: "length (P ! (r0 + a)) = C" if "a < r1 + 1 - r0" for a
    using that assms(3) by (intro rectangular_nth [OF assms(1)]) simp
  show rect: "rectangular (r1 + 1 - r0) (c1 + 1 - c0) T"
    using len assms(5) by (auto simp: T_def rectangular_def list_all_length min_def simp del: upt_Suc)
  show nth: "T ! a ! b = P ! (r0 + a) ! (c0 + b)" if "a < r1 + 1 - r0" "b < c1 + 1 - c0" for a b
    using that len [OF that(1)] assms(5) by (simp add: T_def del: upt_Suc)
  show "cellSet T a b = (a < r1 + 1 - r0 \<and> b < c1 + 1 - c0 \<and> cellSet P (r0 + a) (c0 + b))"
  proof (cases "a < r1 + 1 - r0 \<and> b < c1 + 1 - c0")
    case True
    then have "r0 + a < R" "c0 + b < C" using assms(3,5) by linarith+
    then show ?thesis
      using True nth by (simp add: cellSet_rectangular [OF rect] cellSet_rectangular [OF assms(1)])
  next
    case False
    then show ?thesis by (auto simp: cellSet_rectangular [OF rect])
  qed
qed

lemma take_all_rows:
  assumes "rectangular R C T"
  shows "map (\<lambda>i. take C (drop 0 (T ! i))) [0..<R] = T"
proof (rule nth_equalityI)
  show "length (map (\<lambda>i. take C (drop 0 (T ! i))) [0..<R]) = length T"
    using assms by (simp add: rectangular_def)
next
  fix i assume "i < length (map (\<lambda>i. take C (drop 0 (T ! i))) [0..<R])"
  then have "i < R" by simp
  then show "map (\<lambda>i. take C (drop 0 (T ! i))) [0..<R] ! i = T ! i"
    using rectangular_nth [OF assms, of i] by simp
qed

text \<open>A box that touches its four sides trims to itself.\<close>

lemma trim_tight:
  assumes "rectangular R C T" "0 < R" "0 < C"
    and "cellSet T 0 j0" "cellSet T (R - 1) j1" "cellSet T i0 0" "cellSet T i1 (C - 1)"
  shows "trimPattern T = Inr T"
proof -
  have hs: "hasSetCell T" using assms(4) hasSetCell_iff by blast
  from trim_box [OF assms(1) hs] obtain r0 r1 c0 c1 v where
    b: "r1 < R" "c1 < C" "trimPattern_run T = Inr v"
       "tv_trimmed v = map (\<lambda>i. take (c1 + 1 - c0) (drop c0 (T ! i))) [r0..<r1 + 1]"
       "\<forall>i j. cellSet T i j \<longrightarrow> r0 \<le> i \<and> i \<le> r1 \<and> c0 \<le> j \<and> j \<le> c1"
    by blast
  have "r0 = 0" using b(5) assms(4) by auto
  moreover have "c0 = 0" using b(5) assms(6) by auto
  moreover have "r1 + 1 = R" using b(5) assms(5) b(1) by fastforce
  moreover have "c1 + 1 = C" using b(5) assms(7) b(2) by fastforce
  ultimately have "tv_trimmed v = map (\<lambda>i. take C (drop 0 (T ! i))) [0..<R]"
    using b(4) by simp
  then show ?thesis
    using b(3) take_all_rows [OF assms(1)] by (simp add: trimPattern_def)
qed

lemma list_ex_nth: "i < length xs \<Longrightarrow> P (xs ! i) \<Longrightarrow> list_ex P xs"
  by (auto simp: list_ex_iff)

text \<open>
  C7. For a rectangular pattern \<open>P\<close> with at least one row, \<^verbatim>\<open>trimPattern\<close> returns, when
  \<open>P\<close> has a set cell, the rows \<open>r0..r1\<close> cut to the columns \<open>c0..c1\<close> of the smallest box
  that holds every set cell (each of the four sides of the box holds a set cell, so the
  first and last row and the first and last column of the result do), and \<open>[[1]]\<close> when
  \<open>P\<close> has no set cell; the argument is the same after the run as before; and trimming
  the result returns the result.
\<close>

theorem trimPattern_correct:
  assumes "rectangular R C P" and "0 < R"
  shows "\<exists>v T. trimPattern_run P = Inr v \<and> tv_pat v = P \<and> tv_trimmed v = T \<and> trimPattern P = Inr T
           \<and> (if hasSetCell P then
                (\<exists>r0 r1 c0 c1. r0 \<le> r1 \<and> r1 < R \<and> c0 \<le> c1 \<and> c1 < C
                   \<and> T = map (\<lambda>i. take (c1 + 1 - c0) (drop c0 (P ! i))) [r0..<r1 + 1]
                   \<and> (\<forall>i j. cellSet P i j \<longrightarrow> r0 \<le> i \<and> i \<le> r1 \<and> c0 \<le> j \<and> j \<le> c1)
                   \<and> (\<exists>j. cellSet P r0 j) \<and> (\<exists>j. cellSet P r1 j)
                   \<and> (\<exists>i. cellSet P i c0) \<and> (\<exists>i. cellSet P i c1))
                \<and> list_ex truthy (hd T) \<and> list_ex truthy (last T)
                \<and> list_ex truthy (map hd T) \<and> list_ex truthy (map last T)
              else T = [[Num 1]])
           \<and> trimPattern T = Inr T"
proof (cases "hasSetCell P")
  case False
  from trim_empty [OF assms False] obtain v where
    v: "trimPattern_run P = Inr v" "tv_pat v = P" "tv_trimmed v = [[Num 1]]"
    by blast
  have one: "rectangular 1 1 [[Num 1]]" by (simp add: rectangular_def)
  have "cellSet [[Num 1]] 0 0" by (simp add: cellSet_def)
  then have "trimPattern [[Num 1]] = Inr [[Num 1]]"
    using trim_tight [OF one, of 0 0 0 0] by simp
  then show ?thesis
    using v False by (simp add: trimPattern_def)
next
  case True
  from trim_box [OF assms(1) True] obtain r0 r1 c0 c1 v where
    b: "r0 \<le> r1" "r1 < R" "c0 \<le> c1" "c1 < C" "trimPattern_run P = Inr v" "tv_pat v = P"
       "tv_trimmed v = map (\<lambda>i. take (c1 + 1 - c0) (drop c0 (P ! i))) [r0..<r1 + 1]"
       "\<forall>i j. cellSet P i j \<longrightarrow> r0 \<le> i \<and> i \<le> r1 \<and> c0 \<le> j \<and> j \<le> c1"
       "\<exists>j. cellSet P r0 j" "\<exists>j. cellSet P r1 j" "\<exists>i. cellSet P i c0" "\<exists>i. cellSet P i c1"
    by blast
  define T where "T = map (\<lambda>i. take (c1 + 1 - c0) (drop c0 (P ! i))) [r0..<r1 + 1]"
  let ?R = "r1 + 1 - r0" and ?C = "c1 + 1 - c0"
  note box = box_rectangular [OF assms(1) b(1-4), folded T_def]
  have pos: "0 < ?R" "0 < ?C" using b(1,3) by simp_all
  from b(9) obtain j0 where "cellSet P r0 j0" by blast
  moreover from this b(8) have "c0 \<le> j0" "j0 \<le> c1" by blast+
  ultimately have j0: "cellSet T 0 (j0 - c0)"
    unfolding box(3) using pos by (auto simp: less_diff_conv)
  from b(10) obtain j1 where "cellSet P r1 j1" by blast
  moreover from this b(8) have "c0 \<le> j1" "j1 \<le> c1" by blast+
  ultimately have j1: "cellSet T (?R - 1) (j1 - c0)"
    unfolding box(3) using b(1) pos by (auto simp: less_diff_conv)
  from b(11) obtain i0 where "cellSet P i0 c0" by blast
  moreover from this b(8) have "r0 \<le> i0" "i0 \<le> r1" by blast+
  ultimately have i0: "cellSet T (i0 - r0) 0"
    unfolding box(3) using pos by (auto simp: less_diff_conv)
  from b(12) obtain i1 where "cellSet P i1 c1" by blast
  moreover from this b(8) have "r0 \<le> i1" "i1 \<le> r1" by blast+
  ultimately have i1: "cellSet T (i1 - r0) (?C - 1)"
    unfolding box(3) using b(3) pos by (auto simp: less_diff_conv)
  have idem: "trimPattern T = Inr T"
    by (rule trim_tight [OF box(1) pos j0 j1 i0 i1])
  have lenT: "length T = ?R"
    using box(1) by (simp add: rectangular_def)
  then have ne: "T \<noteq> []" using pos by auto
  have rowlen: "\<And>a. a < ?R \<Longrightarrow> length (T ! a) = ?C"
    using rectangular_nth [OF box(1)] by blast
  have hdT: "hd T = T ! 0" and lastT: "last T = T ! (?R - 1)"
    using ne lenT by (simp_all add: hd_conv_nth last_conv_nth)
  have cs: "cellSet T a c \<Longrightarrow> a < ?R \<and> c < ?C \<and> truthy (T ! a ! c)" for a c
    by (simp add: cellSet_rectangular [OF box(1)])
  have 1: "list_ex truthy (hd T)"
    unfolding hdT using cs [OF j0] rowlen [of 0] by (intro list_ex_nth [of "j0 - c0"]) simp_all
  have 2: "list_ex truthy (last T)"
    unfolding lastT using cs [OF j1] rowlen [of "?R - 1"] by (intro list_ex_nth [of "j1 - c0"]) simp_all
  have 3: "list_ex truthy (map hd T)"
  proof (rule list_ex_nth [of "i0 - r0"])
    have a: "i0 - r0 < ?R" using cs [OF i0] by simp
    then show "i0 - r0 < length (map hd T)" using lenT by simp
    have "T ! (i0 - r0) \<noteq> []" using rowlen [OF a] pos by auto
    then have "hd (T ! (i0 - r0)) = T ! (i0 - r0) ! 0" by (simp add: hd_conv_nth)
    moreover have "map hd T ! (i0 - r0) = hd (T ! (i0 - r0))"
      using a lenT by (intro nth_map) simp
    ultimately show "truthy (map hd T ! (i0 - r0))" using cs [OF i0] by simp
  qed
  have 4: "list_ex truthy (map last T)"
  proof (rule list_ex_nth [of "i1 - r0"])
    have a: "i1 - r0 < ?R" using cs [OF i1] by simp
    then show "i1 - r0 < length (map last T)" using lenT by simp
    have "T ! (i1 - r0) \<noteq> []" using rowlen [OF a] pos by auto
    then have "last (T ! (i1 - r0)) = T ! (i1 - r0) ! (?C - 1)"
      using rowlen [OF a] by (simp add: last_conv_nth)
    moreover have "map last T ! (i1 - r0) = last (T ! (i1 - r0))"
      using a lenT by (intro nth_map) simp
    ultimately show "truthy (map last T ! (i1 - r0))" using cs [OF i1] by simp
  qed
  have run: "trimPattern P = Inr T" "tv_trimmed v = T"
    using b(5,7) by (simp_all add: trimPattern_def T_def)
  have inner: "\<exists>r0' r1' c0' c1'. r0' \<le> r1' \<and> r1' < R \<and> c0' \<le> c1' \<and> c1' < C
                   \<and> T = map (\<lambda>i. take (c1' + 1 - c0') (drop c0' (P ! i))) [r0'..<r1' + 1]
                   \<and> (\<forall>i j. cellSet P i j \<longrightarrow> r0' \<le> i \<and> i \<le> r1' \<and> c0' \<le> j \<and> j \<le> c1')
                   \<and> (\<exists>j. cellSet P r0' j) \<and> (\<exists>j. cellSet P r1' j)
                   \<and> (\<exists>i. cellSet P i c0') \<and> (\<exists>i. cellSet P i c1')"
    using b(1-4) b(8-12) T_def by blast
  show ?thesis
    apply (rule exI [of _ v], rule exI [of _ T])
    unfolding if_P [OF True]
    using b(5,6) run inner 1 2 3 4 idem by blast
qed

theorem trimPattern_correct_witness:
  "rectangular 3 3 [[Num 0, Num 0, Num 0], [Num 0, Num 1, Num 1], [Num 0, Num 1, Num 0]] \<and> (0::nat) < 3
   \<and> trimPattern [[Num 0, Num 0, Num 0], [Num 0, Num 1, Num 1], [Num 0, Num 1, Num 0]]
       = Inr [[Num 1, Num 1], [Num 1, Num 0]]
   \<and> trimPattern [[Num 1, Num 1], [Num 1, Num 0]] = Inr [[Num 1, Num 1], [Num 1, Num 0]]"
proof -
  let ?P = "[[Num 0, Num 0, Num 0], [Num 0, Num 1, Num 1], [Num 0, Num 1, Num 0]]"
  have r: "rectangular 3 3 ?P"
    by (simp add: rectangular_def)
  have e: "trimPattern ?P = Inr [[Num 1, Num 1], [Num 1, Num 0]]"
    by (simp add: trimPattern_def trimPattern_run_def trim_scan_def trim_scan_row_def
        trim_scan_body_def trim_push_def slice_def cellAt_def Let_def upto_rec1)
  from trimPattern_correct [OF r] obtain v T where
    "trimPattern ?P = Inr T" "trimPattern T = Inr T" by auto
  with e r show ?thesis by simp
qed

section \<open>Doubles and exact quotients\<close>

text \<open>
  Rounding to the nearest double is monotone, leaves the integers and half-integers up to
  \<open>2^52\<close> as they are, and has a relative error of at most \<open>2^-53\<close> in the normal range.
  Any rounding \<open>fl\<close> with these three properties gives a quotient of two integers of pixel
  size the floor and the rounding of the exact quotient.
\<close>

lemma quotient_gap:
  fixes a b k :: int
  assumes "b \<noteq> 0" and "rat_of_int a / rat_of_int b < rat_of_int k / 2"
  shows "1 / (2 * rat_of_int \<bar>b\<bar>) \<le> rat_of_int k / 2 - rat_of_int a / rat_of_int b"
proof -
  define t where "t = k * b - 2 * a"
  have eq: "rat_of_int k / 2 - rat_of_int a / rat_of_int b = rat_of_int t / (2 * rat_of_int b)"
    using assms(1) by (simp add: t_def field_simps)
  have pos: "0 < rat_of_int t / (2 * rat_of_int b)"
    using assms(2) unfolding eq [symmetric] by simp
  have "t \<noteq> 0"
  proof
    assume "t = 0"
    then have "rat_of_int t / (2 * rat_of_int b) = 0" by simp
    with pos show False by simp
  qed
  then have "1 \<le> \<bar>t\<bar>" by simp
  then have one: "1 \<le> rat_of_int \<bar>t\<bar>" by (simp only: of_int_1_le_iff)
  have bp: "0 < rat_of_int \<bar>b\<bar>" using assms(1) by simp
  have "rat_of_int t / (2 * rat_of_int b) = \<bar>rat_of_int t / (2 * rat_of_int b)\<bar>"
    using pos by (rule abs_of_pos [symmetric])
  also have "\<dots> = rat_of_int \<bar>t\<bar> / (2 * rat_of_int \<bar>b\<bar>)"
    by (simp add: abs_mult)
  finally have e2: "rat_of_int t / (2 * rat_of_int b) = rat_of_int \<bar>t\<bar> / (2 * rat_of_int \<bar>b\<bar>)" .
  have "1 / (2 * rat_of_int \<bar>b\<bar>) \<le> rat_of_int \<bar>t\<bar> / (2 * rat_of_int \<bar>b\<bar>)"
    using one bp by (intro divide_right_mono) simp_all
  then show ?thesis unfolding eq e2 .
qed

lemma quotient_size:
  fixes a b :: int
  assumes "b \<noteq> 0"
  shows "\<bar>rat_of_int a / rat_of_int b\<bar> = rat_of_int \<bar>a\<bar> / rat_of_int \<bar>b\<bar>"
    and "\<bar>rat_of_int a / rat_of_int b\<bar> \<le> rat_of_int \<bar>a\<bar>"
    and "a \<noteq> 0 \<Longrightarrow> 1 / rat_of_int \<bar>b\<bar> \<le> \<bar>rat_of_int a / rat_of_int b\<bar>"
proof -
  define A where "A = rat_of_int \<bar>a\<bar>"
  define B where "B = rat_of_int \<bar>b\<bar>"
  have "1 \<le> \<bar>b\<bar>" using assms by simp
  then have B: "1 \<le> B" unfolding B_def by (simp only: of_int_1_le_iff)
  have A: "0 \<le> A" by (simp add: A_def)
  show eq: "\<bar>rat_of_int a / rat_of_int b\<bar> = rat_of_int \<bar>a\<bar> / rat_of_int \<bar>b\<bar>" by simp
  have "A / B \<le> A / 1"
    using A B by (intro divide_left_mono) simp_all
  then show "\<bar>rat_of_int a / rat_of_int b\<bar> \<le> rat_of_int \<bar>a\<bar>"
    unfolding eq A_def [symmetric] B_def [symmetric] by simp
  show "1 / rat_of_int \<bar>b\<bar> \<le> \<bar>rat_of_int a / rat_of_int b\<bar>" if "a \<noteq> 0"
  proof -
    have "1 \<le> \<bar>a\<bar>" using that by simp
    then have "1 \<le> A" unfolding A_def by (simp only: of_int_1_le_iff)
    then have "1 / B \<le> A / B"
      using B by (intro divide_right_mono) simp_all
    then show ?thesis
      unfolding eq A_def [symmetric] B_def [symmetric] .
  qed
qed

lemma rounded_below_half:
  fixes fl :: "rat \<Rightarrow> rat" and a b k :: int
  assumes mono: "\<And>x y. x \<le> y \<Longrightarrow> fl x \<le> fl y"
    and exact: "\<And>k::int. \<bar>k\<bar> \<le> 2 ^ 53 \<Longrightarrow> fl (rat_of_int k / 2) = rat_of_int k / 2"
    and err: "\<And>x. 1 / 2 ^ 34 \<le> \<bar>x\<bar> \<Longrightarrow> \<bar>x\<bar> \<le> 2 ^ 34 \<Longrightarrow> \<bar>fl x - x\<bar> \<le> \<bar>x\<bar> / 2 ^ 53"
    and b: "b \<noteq> 0" "\<bar>b\<bar> < 2 ^ 34" and a: "\<bar>a\<bar> < 2 ^ 34" and k: "\<bar>k\<bar> \<le> 2 ^ 53"
    and lt: "rat_of_int a / rat_of_int b < rat_of_int k / 2"
  shows "fl (rat_of_int a / rat_of_int b) < rat_of_int k / 2"
proof (rule ccontr)
  define Q where "Q = rat_of_int a / rat_of_int b"
  define A where "A = rat_of_int \<bar>a\<bar>"
  define B where "B = rat_of_int \<bar>b\<bar>"
  assume "\<not> fl (rat_of_int a / rat_of_int b) < rat_of_int k / 2"
  then have ge: "rat_of_int k / 2 \<le> fl Q" by (simp add: Q_def)
  have "fl Q \<le> fl (rat_of_int k / 2)"
    by (rule mono) (use lt in \<open>simp add: Q_def\<close>)
  then have "fl Q \<le> rat_of_int k / 2" by (simp only: exact [OF k])
  with ge have fl: "fl Q = rat_of_int k / 2" by simp
  have "1 / (2 * B) \<le> rat_of_int k / 2 - Q"
    unfolding Q_def B_def by (rule quotient_gap [OF b(1) lt])
  then have gap: "1 / (2 * B) \<le> fl Q - Q"
    by (simp only: fl)
  have "1 \<le> \<bar>b\<bar>" using b(1) by simp
  then have B1: "1 \<le> B" unfolding B_def by (simp only: of_int_1_le_iff)
  have "\<bar>b\<bar> \<le> 2 ^ 34" "\<bar>a\<bar> \<le> 2 ^ 34" using b(2) a by simp_all
  then have B34: "B \<le> 2 ^ 34" and A34: "A \<le> 2 ^ 34"
    unfolding A_def B_def by (simp_all only: of_int_le_numeral_power_cancel_iff)
  have absQ: "\<bar>Q\<bar> = A / B" "\<bar>Q\<bar> \<le> A"
    unfolding Q_def A_def B_def by (rule quotient_size [OF b(1)])+
  show False
  proof (cases "a = 0")
    case True
    then have "Q = rat_of_int 0 / 2" by (simp add: Q_def)
    then have "fl Q = 0" using exact [of 0] by simp
    moreover have "Q = 0" using True by (simp add: Q_def)
    moreover have "0 < 1 / (2 * B)" using B1 by simp
    ultimately show False using gap by simp
  next
    case False
    have "1 / 2 ^ 34 \<le> 1 / B"
      using B1 B34 by (intro divide_left_mono) simp_all
    also have "1 / B \<le> \<bar>Q\<bar>"
      unfolding Q_def B_def by (rule quotient_size(3) [OF b(1) False])
    finally have lo: "1 / 2 ^ 34 \<le> \<bar>Q\<bar>" .
    have hi: "\<bar>Q\<bar> \<le> 2 ^ 34" using absQ(2) A34 by simp
    have "fl Q - Q \<le> \<bar>fl Q - Q\<bar>" by simp
    also have "\<dots> \<le> \<bar>Q\<bar> / 2 ^ 53" by (rule err [OF lo hi])
    finally have "1 / (2 * B) \<le> (A / B) / 2 ^ 53"
      using gap unfolding absQ(1) by simp
    then have "2 ^ 53 \<le> 2 * A"
      using B1 by (simp add: field_simps)
    then show False using A34 by simp
  qed
qed

lemma rounded_quotient:
  fixes fl :: "rat \<Rightarrow> rat" and a b :: int
  assumes mono: "\<And>x y. x \<le> y \<Longrightarrow> fl x \<le> fl y"
    and exact: "\<And>k::int. \<bar>k\<bar> \<le> 2 ^ 53 \<Longrightarrow> fl (rat_of_int k / 2) = rat_of_int k / 2"
    and err: "\<And>x. 1 / 2 ^ 34 \<le> \<bar>x\<bar> \<Longrightarrow> \<bar>x\<bar> \<le> 2 ^ 34 \<Longrightarrow> \<bar>fl x - x\<bar> \<le> \<bar>x\<bar> / 2 ^ 53"
    and b: "b \<noteq> 0" "\<bar>b\<bar> < 2 ^ 34" and a: "\<bar>a\<bar> < 2 ^ 34"
  shows "\<lfloor>fl (rat_of_int a / rat_of_int b)\<rfloor> = \<lfloor>rat_of_int a / rat_of_int b\<rfloor>"
    and "\<lfloor>fl (rat_of_int a / rat_of_int b) + 1 / 2\<rfloor> = \<lfloor>rat_of_int a / rat_of_int b + 1 / 2\<rfloor>"
proof -
  define Q where "Q = rat_of_int a / rat_of_int b"
  define A where "A = \<bar>a\<bar>"
  have A: "A < 2 ^ 34" "0 \<le> A" using a by (simp_all add: A_def)
  have "\<bar>Q\<bar> \<le> rat_of_int A"
    unfolding Q_def A_def by (rule quotient_size(2) [OF b(1)])
  then have Qb: "- rat_of_int A \<le> Q" "Q \<le> rat_of_int A" by linarith+
  have below: "fl Q < rat_of_int k / 2" if "\<bar>k\<bar> \<le> 2 ^ 53" "Q < rat_of_int k / 2" for k
    using rounded_below_half [of fl b a k, OF mono exact err b a that(1)] that(2)
    by (simp add: Q_def)
  have above: "rat_of_int k / 2 \<le> fl Q" if "\<bar>k\<bar> \<le> 2 ^ 53" "rat_of_int k / 2 \<le> Q" for k
    using mono [OF that(2)] exact [OF that(1)] by simp
  have fl1: "\<lfloor>fl Q\<rfloor> = \<lfloor>Q\<rfloor>"
  proof -
    define n where "n = \<lfloor>Q\<rfloor>"
    have nQ: "rat_of_int n \<le> Q" "Q < rat_of_int n + 1"
      unfolding n_def by linarith+
    have "rat_of_int n \<le> rat_of_int A" "- rat_of_int A < rat_of_int n + 1"
      using nQ Qb by linarith+
    then have "rat_of_int n \<le> rat_of_int A" "rat_of_int (- A) < rat_of_int (n + 1)" by simp_all
    then have n: "n \<le> A" "- A < n + 1" by (simp_all only: of_int_le_iff of_int_less_iff)
    have k1: "\<bar>2 * n\<bar> \<le> 2 ^ 53" and k2: "\<bar>2 * (n + 1)\<bar> \<le> 2 ^ 53"
      using n A by simp_all
    have "rat_of_int (2 * n) / 2 \<le> Q" using nQ(1) by simp
    from above [OF k1 this] have lo: "rat_of_int n \<le> fl Q" by simp
    have "Q < rat_of_int (2 * (n + 1)) / 2" using nQ(2) by simp
    from below [OF k2 this] have hi: "fl Q < rat_of_int n + 1" by simp
    have "\<lfloor>fl Q\<rfloor> = n" using lo hi by (simp add: floor_eq_iff)
    then show ?thesis by (simp add: n_def)
  qed
  have fl2: "\<lfloor>fl Q + 1 / 2\<rfloor> = \<lfloor>Q + 1 / 2\<rfloor>"
  proof -
    define m where "m = \<lfloor>Q + 1 / 2\<rfloor>"
    have mQ: "rat_of_int m \<le> Q + 1 / 2" "Q + 1 / 2 < rat_of_int m + 1"
      unfolding m_def by linarith+
    have "rat_of_int m \<le> rat_of_int A + 1" "- rat_of_int A < rat_of_int m + 1"
      using mQ Qb by linarith+
    then have "rat_of_int m \<le> rat_of_int (A + 1)" "rat_of_int (- A) < rat_of_int (m + 1)" by simp_all
    then have m: "m \<le> A + 1" "- A < m + 1" by (simp_all only: of_int_le_iff of_int_less_iff)
    have k1: "\<bar>2 * m - 1\<bar> \<le> 2 ^ 53" and k2: "\<bar>2 * m + 1\<bar> \<le> 2 ^ 53"
      using m A by simp_all
    have "rat_of_int (2 * m - 1) / 2 \<le> Q" using mQ(1) by (simp add: field_simps)
    from above [OF k1 this] have lo: "rat_of_int m \<le> fl Q + 1 / 2" by (simp add: field_simps)
    have "Q < rat_of_int (2 * m + 1) / 2" using mQ(2) by (simp add: field_simps)
    from below [OF k2 this] have hi: "fl Q + 1 / 2 < rat_of_int m + 1" by (simp add: field_simps)
    have "\<lfloor>fl Q + 1 / 2\<rfloor> = m" using lo hi by (simp add: floor_eq_iff)
    then show ?thesis by (simp add: m_def)
  qed
  show "\<lfloor>fl (rat_of_int a / rat_of_int b)\<rfloor> = \<lfloor>rat_of_int a / rat_of_int b\<rfloor>"
    using fl1 by (simp add: Q_def)
  show "\<lfloor>fl (rat_of_int a / rat_of_int b) + 1 / 2\<rfloor> = \<lfloor>rat_of_int a / rat_of_int b + 1 / 2\<rfloor>"
    using fl2 by (simp add: Q_def)
qed



section \<open>Drops in placement mode\<close>

lemma floor_numeral_quot: "\<lfloor>(numeral a / numeral b :: rat)\<rfloor> = numeral a div numeral b"
  using floor_divide_of_int_eq [of "numeral a" "numeral b", where ?'a = rat] by simp

lemma floor_one_quot: "\<lfloor>(1 / numeral b :: rat)\<rfloor> = 1 div numeral b"
  using floor_divide_of_int_eq [of 1 "numeral b", where ?'a = rat] by simp

lemma clamp_steps:
  "(let b = f; b = (if b < 0 then 0 else b); b = (if b \<ge> e then e - 1 else b) in b) = min (max f 0) (e - 1)"
  for f e :: int
  by (simp add: Let_def min_def max_def)

lemma blockIndex_clamp:
  "blockIndex offset pitch extent = min (max \<lfloor>rat_of_int offset / rat_of_int pitch\<rfloor> 0) (extent - 1)"
  unfolding blockIndex_def Math_floor_def by (rule clamp_steps)


lemma doesNotFit_iff:
  "doesNotFit props pattern row col =
     (\<exists>i j. cellSet pattern i j \<and>
        \<not> (0 \<le> row + int i \<and> row + int i < prop_rows props \<and>
           0 \<le> col + int j \<and> col + int j < prop_cols props))"
  unfolding doesNotFit_def list_ex_iff cellSet_def Let_def
  by (simp add: Bex_def) (metis not_le)

lemma handleDrop_placement:
  assumes "\<not> prop_editionMode props"
  shows "handleDrop props (Some rect) snapshot fresh item (Some clientOffset) prev =
     (case it_pattern item of
        None \<Rightarrow> None
      | Some pattern \<Rightarrow>
          if pattern = [] \<or> doesNotFit props pattern
                (fst (originCell props rect (it_pointerOffset item) pattern clientOffset))
                (snd (originCell props rect (it_pointerOffset item) pattern clientOffset))
          then None
          else Some (prev\<lparr>pieces := replacePiece (it_pieceId item)
                  (newPiece snapshot fresh item pattern
                     (fst (originCell props rect (it_pointerOffset item) pattern clientOffset))
                     (snd (originCell props rect (it_pointerOffset item) pattern clientOffset)))
                  (pieces prev)\<rparr>))"
  using assms by (simp add: handleDrop_def Let_def split: option.splits prod.splits)

lemma newPiece_fields [simp]:
  "pc_pattern (newPiece snapshot fresh item pattern row col) = pattern"
  "pc_row (newPiece snapshot fresh item pattern row col) = row"
  "pc_col (newPiece snapshot fresh item pattern row col) = col"
  "pc_id (newPiece snapshot fresh item pattern row col) = idOrFresh (it_pieceId item) fresh"
  "pc_color (newPiece snapshot fresh item pattern row col) = it_color item"
  "pc_type (newPiece snapshot fresh item pattern row col) = it_type item"
  by (simp_all add: newPiece_def Let_def)

lemma replacePiece_last [simp]:
  "replacePiece pieceId piece prev \<noteq> []" "last (replacePiece pieceId piece prev) = piece"
  by (simp_all add: replacePiece_def Let_def)

lemma originCell_formula:
  "originCell props rect pointerOffsetOpt pattern clientOffset =
     (let S = cellSize props; G = gapSize props; P = containerPadding props;
          grab = (case pointerOffsetOpt of Some q \<Rightarrow> q | None \<Rightarrow> \<lparr>pt_x = 0, pt_y = 0\<rparr>);
          blockIndexX = min (max \<lfloor>rat_of_int (pt_x grab) / rat_of_int (S + G)\<rfloor> 0)
                            (int (length (pattern ! 0)) - 1);
          blockIndexY = min (max \<lfloor>rat_of_int (pt_y grab) / rat_of_int (S + G)\<rfloor> 0)
                            (int (length pattern) - 1)
      in (round (rat_of_int (pt_y clientOffset - rect_top rect - P) / rat_of_int (S + G)) - blockIndexY,
          round (rat_of_int (pt_x clientOffset - rect_left rect - P) / rat_of_int (S + G)) - blockIndexX))"
  by (simp add: originCell_def blockIndex_clamp Math_round_def round_def Let_def)

text \<open>
  The origin computed with every quotient rounded to a double first is the origin of
  the model, for pixel inputs.
\<close>

lemma originCell_rounded:
  fixes fl :: "rat \<Rightarrow> rat"
  assumes mono: "\<And>x y. x \<le> y \<Longrightarrow> fl x \<le> fl y"
    and exact: "\<And>k::int. \<bar>k\<bar> \<le> 2 ^ 53 \<Longrightarrow> fl (rat_of_int k / 2) = rat_of_int k / 2"
    and err: "\<And>x. 1 / 2 ^ 34 \<le> \<bar>x\<bar> \<Longrightarrow> \<bar>x\<bar> \<le> 2 ^ 34 \<Longrightarrow> \<bar>fl x - x\<bar> \<le> \<bar>x\<bar> / 2 ^ 53"
    and pitch: "cellSize props + gapSize props \<noteq> 0"
    and px: "pixelInputs props rect pointerOffsetOpt clientOffset"
  shows "originCell props rect pointerOffsetOpt pattern clientOffset =
     (let S = cellSize props; G = gapSize props; P = containerPadding props;
          grab = (case pointerOffsetOpt of Some q \<Rightarrow> q | None \<Rightarrow> \<lparr>pt_x = 0, pt_y = 0\<rparr>);
          blockIndexX = min (max \<lfloor>fl (rat_of_int (pt_x grab) / rat_of_int (S + G))\<rfloor> 0)
                            (int (length (pattern ! 0)) - 1);
          blockIndexY = min (max \<lfloor>fl (rat_of_int (pt_y grab) / rat_of_int (S + G))\<rfloor> 0)
                            (int (length pattern) - 1)
      in (\<lfloor>fl (rat_of_int (pt_y clientOffset - rect_top rect - P) / rat_of_int (S + G)) + 1 / 2\<rfloor> - blockIndexY,
          \<lfloor>fl (rat_of_int (pt_x clientOffset - rect_left rect - P) / rat_of_int (S + G)) + 1 / 2\<rfloor> - blockIndexX))"
proof -
  define grab where "grab = (case pointerOffsetOpt of Some q \<Rightarrow> q | None \<Rightarrow> \<lparr>pt_x = 0, pt_y = 0\<rparr>)"
  define b where "b = cellSize props + gapSize props"
  have S: "\<bar>cellSize props\<bar> \<le> 2 ^ 31" and G: "\<bar>gapSize props\<bar> \<le> 2 ^ 31"
    and L: "\<bar>rect_left rect\<bar> \<le> 2 ^ 31" and T: "\<bar>rect_top rect\<bar> \<le> 2 ^ 31"
    and X: "\<bar>pt_x clientOffset\<bar> \<le> 2 ^ 31" and Y: "\<bar>pt_y clientOffset\<bar> \<le> 2 ^ 31"
    using px by (auto simp: pixelInputs_def pixel_def)
  have gx: "\<bar>pt_x grab\<bar> \<le> 2 ^ 31" and gy: "\<bar>pt_y grab\<bar> \<le> 2 ^ 31"
    using px by (auto simp: pixelInputs_def grab_def pixel_def split: option.splits)
  have b: "b \<noteq> 0" "\<bar>b\<bar> < 2 ^ 34"
    using pitch S G by (simp_all add: b_def)
  have ax: "\<bar>pt_x clientOffset - rect_left rect - containerPadding props\<bar> < 2 ^ 34"
    and ay: "\<bar>pt_y clientOffset - rect_top rect - containerPadding props\<bar> < 2 ^ 34"
    using X Y L T G by (simp_all add: containerPadding_def)
  have bx: "\<bar>pt_x grab\<bar> < 2 ^ 34" and by': "\<bar>pt_y grab\<bar> < 2 ^ 34"
    using gx gy by simp_all
  have rq1: "\<lfloor>fl (rat_of_int a / rat_of_int b)\<rfloor> = \<lfloor>rat_of_int a / rat_of_int b\<rfloor>"
    if "\<bar>a\<bar> < 2 ^ 34" for a
    by (rule rounded_quotient(1) [where fl = fl]) (fact mono exact err b that)+
  have rq2: "\<lfloor>fl (rat_of_int a / rat_of_int b) + 1 / 2\<rfloor> = \<lfloor>rat_of_int a / rat_of_int b + 1 / 2\<rfloor>"
    if "\<bar>a\<bar> < 2 ^ 34" for a
    by (rule rounded_quotient(2) [where fl = fl]) (fact mono exact err b that)+
  show ?thesis
    unfolding originCell_formula Let_def round_def grab_def [symmetric] b_def [symmetric]
    by (simp only: rq1 [OF bx] rq1 [OF by'] rq2 [OF ax] rq2 [OF ay])
qed

text \<open>The same for the cell of an edition-mode drop.\<close>

lemma editionCell_rounded:
  fixes fl :: "rat \<Rightarrow> rat"
  assumes mono: "\<And>x y. x \<le> y \<Longrightarrow> fl x \<le> fl y"
    and exact: "\<And>k::int. \<bar>k\<bar> \<le> 2 ^ 53 \<Longrightarrow> fl (rat_of_int k / 2) = rat_of_int k / 2"
    and err: "\<And>x. 1 / 2 ^ 34 \<le> \<bar>x\<bar> \<Longrightarrow> \<bar>x\<bar> \<le> 2 ^ 34 \<Longrightarrow> \<bar>fl x - x\<bar> \<le> \<bar>x\<bar> / 2 ^ 53"
    and pitch: "cellSize props + gapSize props \<noteq> 0"
    and px: "pixelInputs props rect None clientOffset"
  shows "editionCell props rect clientOffset =
     (let S = cellSize props; G = gapSize props; P = containerPadding props
      in (\<lfloor>fl (rat_of_int (pt_y clientOffset - rect_top rect - P) / rat_of_int (S + G)) + 1 / 2\<rfloor>,
          \<lfloor>fl (rat_of_int (pt_x clientOffset - rect_left rect - P) / rat_of_int (S + G)) + 1 / 2\<rfloor>))"
proof -
  define b where "b = cellSize props + gapSize props"
  have S: "\<bar>cellSize props\<bar> \<le> 2 ^ 31" and G: "\<bar>gapSize props\<bar> \<le> 2 ^ 31"
    and L: "\<bar>rect_left rect\<bar> \<le> 2 ^ 31" and T: "\<bar>rect_top rect\<bar> \<le> 2 ^ 31"
    and X: "\<bar>pt_x clientOffset\<bar> \<le> 2 ^ 31" and Y: "\<bar>pt_y clientOffset\<bar> \<le> 2 ^ 31"
    using px by (auto simp: pixelInputs_def pixel_def)
  have b: "b \<noteq> 0" "\<bar>b\<bar> < 2 ^ 34"
    using pitch S G by (simp_all add: b_def)
  have ax: "\<bar>pt_x clientOffset - rect_left rect - containerPadding props\<bar> < 2 ^ 34"
    and ay: "\<bar>pt_y clientOffset - rect_top rect - containerPadding props\<bar> < 2 ^ 34"
    using X Y L T G by (simp_all add: containerPadding_def)
  have rq2: "\<lfloor>fl (rat_of_int a / rat_of_int b) + 1 / 2\<rfloor> = \<lfloor>rat_of_int a / rat_of_int b + 1 / 2\<rfloor>"
    if "\<bar>a\<bar> < 2 ^ 34" for a
    by (rule rounded_quotient(2) [where fl = fl]) (fact mono exact err b that)+
  show ?thesis
    unfolding editionCell_def Math_round_def Let_def b_def [symmetric]
    by (simp only: rq2 [OF ax] rq2 [OF ay])
qed


lemmas geometry_defs = handleDrop_def doesNotFit_def newPiece_def replacePiece_def idOrFresh_def
  isFalsyId_def initial_state_def originCell_def editionCell_def blockIndex_def Math_round_def Math_floor_def
  cellSize_def gapSize_def containerPadding_def gridCellSize_def gridPaddingSize_def Let_def
  floor_numeral_quot floor_one_quot




text \<open>
  C3. In placement mode, with a pointer and a container, \<^verbatim>\<open>handleDrop\<close> returns without
  calling a state setter exactly when the pattern is missing or empty or some set cell
  \<open>(i, j)\<close> has its target \<open>(row + i, col + j)\<close> outside the grid. The pieces already placed
  (the snapshot and the state) play no part in this. An accepted drop rewrites the pieces
  and leaves walls, markers and minis as they were.
\<close>

theorem handleDrop_rejects_iff:
  assumes "\<not> prop_editionMode props" and "cellSize props + gapSize props \<noteq> 0"
  shows "((handleDrop props (Some rect) snapshot fresh item (Some clientOffset) prev = None) =
            (case it_pattern item of
               None \<Rightarrow> True
             | Some pattern \<Rightarrow>
                 pattern = [] \<or>
                 (\<exists>i j. cellSet pattern i j \<and>
                    (let (row, col) = originCell props rect (it_pointerOffset item) pattern clientOffset
                     in \<not> (0 \<le> row + int i \<and> row + int i < prop_rows props \<and>
                           0 \<le> col + int j \<and> col + int j < prop_cols props)))))
       \<and> ((handleDrop props (Some rect) snapshot fresh item (Some clientOffset) prev = None) =
            (handleDrop props (Some rect) snapshot' fresh' item (Some clientOffset) prev' = None))
       \<and> (case handleDrop props (Some rect) snapshot fresh item (Some clientOffset) prev of
             None \<Rightarrow> True
           | Some s' \<Rightarrow> walls s' = walls prev \<and> markedCells s' = markedCells prev
                        \<and> cellMinis s' = cellMinis prev \<and> pieces s' \<noteq> [])"
proof (cases "it_pattern item")
  case None
  then show ?thesis
    by (simp add: handleDrop_placement [OF assms(1)])
next
  case (Some pattern)
  let ?o = "originCell props rect (it_pointerOffset item) pattern clientOffset"
  have bad: "(pattern = [] \<or> doesNotFit props pattern (fst ?o) (snd ?o)) =
        (pattern = [] \<or>
           (\<exists>i j. cellSet pattern i j \<and>
              (let (row, col) = ?o
               in \<not> (0 \<le> row + int i \<and> row + int i < prop_rows props \<and>
                     0 \<le> col + int j \<and> col + int j < prop_cols props))))"
    by (simp add: doesNotFit_iff split_beta)
  show ?thesis
  proof (cases "pattern = [] \<or> doesNotFit props pattern (fst ?o) (snd ?o)")
    case True
    then show ?thesis
      using bad by (simp add: handleDrop_placement [OF assms(1)] Some)
  next
    case False
    then show ?thesis
      using bad by (simp add: handleDrop_placement [OF assms(1)] Some)
  qed
qed

theorem handleDrop_rejects_iff_witness:
  "\<not> prop_editionMode props5 \<and> cellSize props5 + gapSize props5 \<noteq> 0
   \<and> originCell props5 \<lparr>rect_left = 0, rect_top = 0\<rparr> None [[Num 1, Num 1]] \<lparr>pt_x = 148, pt_y = 8\<rparr> = (0, 4)
   \<and> handleDrop props5 (Some \<lparr>rect_left = 0, rect_top = 0\<rparr>) [] ''piece-1''
        \<lparr>it_pattern = Some [[Num 1, Num 1]], it_type = ''I2'', it_color = ''#F5BE02'',
         it_pieceId = None, it_pointerOffset = None\<rparr>
        (Some \<lparr>pt_x = 148, pt_y = 8\<rparr>) initial_state = None
   \<and> originCell props5 \<lparr>rect_left = 0, rect_top = 0\<rparr> None [[Num 1, Num 1]] \<lparr>pt_x = 113, pt_y = 8\<rparr> = (0, 3)
   \<and> handleDrop props5 (Some \<lparr>rect_left = 0, rect_top = 0\<rparr>) [] ''piece-1''
        \<lparr>it_pattern = Some [[Num 1, Num 1]], it_type = ''I2'', it_color = ''#F5BE02'',
         it_pieceId = None, it_pointerOffset = None\<rparr>
        (Some \<lparr>pt_x = 113, pt_y = 8\<rparr>) initial_state
      = Some \<lparr>pieces = [\<lparr>pc_id = ''piece-1'', pc_type = ''I2'', pc_pattern = [[Num 1, Num 1]],
                          pc_originalPattern = [[Num 1, Num 1]], pc_color = ''#F5BE02'',
                          pc_row = 0, pc_col = 3, pc_rotation = 0\<rparr>],
               walls = {}, markedCells = {}, cellMinis = Map.empty\<rparr>"
proof -
  let ?item = "\<lparr>it_pattern = Some [[Num 1, Num 1]], it_type = ''I2'', it_color = ''#F5BE02'',
         it_pieceId = None, it_pointerOffset = None\<rparr>"
  let ?rect = "\<lparr>rect_left = 0, rect_top = 0\<rparr>"
  have h1: "\<not> prop_editionMode props5" by (simp add: props5_def)
  have h2: "cellSize props5 + gapSize props5 \<noteq> 0"
    by (simp add: props5_def cellSize_def gapSize_def gridCellSize_def gridPaddingSize_def)
  have o4: "originCell props5 ?rect None [[Num 1, Num 1]] \<lparr>pt_x = 148, pt_y = 8\<rparr> = (0, 4)"
    by (simp add: geometry_defs props5_def)
  have o3: "originCell props5 ?rect None [[Num 1, Num 1]] \<lparr>pt_x = 113, pt_y = 8\<rparr> = (0, 3)"
    by (simp add: geometry_defs props5_def)
  have out: "cellSet [[Num 1, Num 1]] 0 1" by (simp add: cellSet_def)
  have rej: "handleDrop props5 (Some ?rect) [] ''piece-1'' ?item (Some \<lparr>pt_x = 148, pt_y = 8\<rparr>) initial_state = None"
    unfolding handleDrop_rejects_iff [OF h1 h2, THEN conjunct1]
    using out by (simp add: o4) (rule exI [of _ 0], rule exI [of _ 1], simp add: props5_def)
  have acc: "handleDrop props5 (Some ?rect) [] ''piece-1'' ?item (Some \<lparr>pt_x = 113, pt_y = 8\<rparr>) initial_state
      = Some \<lparr>pieces = [\<lparr>pc_id = ''piece-1'', pc_type = ''I2'', pc_pattern = [[Num 1, Num 1]],
                          pc_originalPattern = [[Num 1, Num 1]], pc_color = ''#F5BE02'',
                          pc_row = 0, pc_col = 3, pc_rotation = 0\<rparr>],
               walls = {}, markedCells = {}, cellMinis = Map.empty\<rparr>"
    by (simp add: geometry_defs props5_def)
  show ?thesis
    using h1 h2 o4 o3 rej acc by simp
qed

section \<open>Drag sessions\<close>

text \<open>
  C2, as stated, fails: the piece of \<open>stateA\<close> (a 1 by 2 piece at the origin of the 5 by 5
  grid), dragged by its first block and released over the grid with the pointer on
  column 4, does not fit; \<^verbatim>\<open>handleDrop\<close> returns without placing, \<^verbatim>\<open>didDrop()\<close> is true,
  so \<^verbatim>\<open>onRemove\<close> is not called either: no terminal operation fires and the piece stays.
\<close>

theorem dragSession_rejected_counterexample:
  "dragSession props5 (Some \<lparr>rect_left = 0, rect_top = 0\<rparr>) [] ''piece-2'' pieceA
     \<lparr>pt_x = 0, pt_y = 0\<rparr> (OverGrid (Some \<lparr>pt_x = 148, pt_y = 8\<rparr>)) stateA = ([], stateA)"
  by (simp add: dragSession_def overlayItem_def pieceA_def stateA_def geometry_defs props5_def)

lemma dragSession_cases:
  assumes "\<not> prop_editionMode props"
  shows "dragSession props container snapshot fresh piece dragStartOffset rel s =
     (case rel of
        OutsideGrid \<Rightarrow> ([Remove], s\<lparr>pieces := filter (\<lambda>p. pc_id p \<noteq> pc_id piece) (pieces s)\<rparr>)
      | OverGrid clientOffsetOpt \<Rightarrow>
          (case (clientOffsetOpt, container) of
             (Some clientOffset, Some rect) \<Rightarrow>
               (let pattern = pc_pattern piece;
                    (row, col) = originCell props rect (Some dragStartOffset) pattern clientOffset
                in if pattern = [] \<or> doesNotFit props pattern row col
                   then ([], s)
                   else ([Place],
                         s\<lparr>pieces := replacePiece (Some (pc_id piece))
                               (newPiece snapshot fresh (overlayItem piece dragStartOffset) pattern row col)
                               (pieces s)\<rparr>))
           | _ \<Rightarrow> ([], s)))
     \<and> length (fst (dragSession props container snapshot fresh piece dragStartOffset rel s)) \<le> 1"
proof (cases rel)
  case OutsideGrid
  then show ?thesis by (simp add: dragSession_def removePiece_def)
next
  case (OverGrid clientOffsetOpt)
  show ?thesis
  proof (cases "\<exists>clientOffset rect. clientOffsetOpt = Some clientOffset \<and> container = Some rect")
    case True
    then obtain clientOffset rect where
      e: "clientOffsetOpt = Some clientOffset" "container = Some rect" by blast
    show ?thesis
      unfolding OverGrid e
      by (simp add: dragSession_def handleDrop_placement [OF assms(1)] overlayItem_def assms(1)
          Let_def split_beta)
  next
    case False
    then have "handleDrop props container snapshot fresh (overlayItem piece dragStartOffset)
                 clientOffsetOpt s = None"
      by (auto simp: handleDrop_def split: option.splits)
    then show ?thesis
      unfolding OverGrid using False
      by (auto simp: dragSession_def split: option.splits)
  qed
qed

text \<open>
  C2, amended. A drag session of a placed piece in placement mode fires at most one
  terminal operation: released outside the grid target, the piece is removed; released
  over the grid, the piece is placed when \<^verbatim>\<open>handleDrop\<close> accepts the drop, and nothing
  fires and the state stays when it rejects it (no pointer or container, an empty pattern,
  or a set cell outside the grid).
\<close>

theorem dragSession_outcomes:
  assumes "\<not> prop_editionMode props" and "cellSize props + gapSize props \<noteq> 0"
  shows "dragSession props container snapshot fresh piece dragStartOffset rel s =
     (case rel of
        OutsideGrid \<Rightarrow> ([Remove], s\<lparr>pieces := filter (\<lambda>p. pc_id p \<noteq> pc_id piece) (pieces s)\<rparr>)
      | OverGrid clientOffsetOpt \<Rightarrow>
          (case (clientOffsetOpt, container) of
             (Some clientOffset, Some rect) \<Rightarrow>
               (let pattern = pc_pattern piece;
                    (row, col) = originCell props rect (Some dragStartOffset) pattern clientOffset
                in if pattern = [] \<or>
                      (\<exists>i j. cellSet pattern i j \<and>
                         \<not> (0 \<le> row + int i \<and> row + int i < prop_rows props \<and>
                            0 \<le> col + int j \<and> col + int j < prop_cols props))
                   then ([], s)
                   else ([Place],
                         s\<lparr>pieces := replacePiece (Some (pc_id piece))
                               (newPiece snapshot fresh (overlayItem piece dragStartOffset) pattern row col)
                               (pieces s)\<rparr>))
           | _ \<Rightarrow> ([], s)))
     \<and> length (fst (dragSession props container snapshot fresh piece dragStartOffset rel s)) \<le> 1"
  unfolding doesNotFit_iff [symmetric]
  by (rule dragSession_cases [OF assms(1)])

theorem dragSession_outcomes_witness:
  "\<not> prop_editionMode props5 \<and> cellSize props5 + gapSize props5 \<noteq> 0
   \<and> dragSession props5 (Some \<lparr>rect_left = 0, rect_top = 0\<rparr>) [] ''piece-2'' pieceA
        \<lparr>pt_x = 0, pt_y = 0\<rparr> OutsideGrid stateA
      = ([Remove], \<lparr>pieces = [], walls = {}, markedCells = {}, cellMinis = Map.empty\<rparr>)
   \<and> dragSession props5 (Some \<lparr>rect_left = 0, rect_top = 0\<rparr>) [] ''piece-2'' pieceA
        \<lparr>pt_x = 0, pt_y = 0\<rparr> (OverGrid (Some \<lparr>pt_x = 113, pt_y = 8\<rparr>)) stateA
      = ([Place], \<lparr>pieces = [pieceA\<lparr>pc_col := 3\<rparr>], walls = {}, markedCells = {}, cellMinis = Map.empty\<rparr>)"
proof -
  have h1: "\<not> prop_editionMode props5" by (simp add: props5_def)
  have h2: "cellSize props5 + gapSize props5 \<noteq> 0"
    by (simp add: props5_def cellSize_def gapSize_def gridCellSize_def gridPaddingSize_def)
  have out: "dragSession props5 (Some \<lparr>rect_left = 0, rect_top = 0\<rparr>) [] ''piece-2'' pieceA
        \<lparr>pt_x = 0, pt_y = 0\<rparr> OutsideGrid stateA
      = ([Remove], \<lparr>pieces = [], walls = {}, markedCells = {}, cellMinis = Map.empty\<rparr>)"
    using dragSession_outcomes [OF h1 h2, of "Some \<lparr>rect_left = 0, rect_top = 0\<rparr>" "[]" "''piece-2''"
        pieceA "\<lparr>pt_x = 0, pt_y = 0\<rparr>" OutsideGrid stateA]
    by (simp add: stateA_def)
  have over: "dragSession props5 (Some \<lparr>rect_left = 0, rect_top = 0\<rparr>) [] ''piece-2'' pieceA
        \<lparr>pt_x = 0, pt_y = 0\<rparr> (OverGrid (Some \<lparr>pt_x = 113, pt_y = 8\<rparr>)) stateA
      = ([Place], \<lparr>pieces = [pieceA\<lparr>pc_col := 3\<rparr>], walls = {}, markedCells = {}, cellMinis = Map.empty\<rparr>)"
    by (simp add: dragSession_def overlayItem_def pieceA_def stateA_def geometry_defs props5_def)
  show ?thesis using h1 h2 out over by simp
qed

section \<open>Invariants of the mounted component\<close>

lemma handleDrop_edition:
  assumes "prop_editionMode props"
  shows "handleDrop props (Some rect) snapshot fresh item (Some clientOffset) prev =
     (case it_pattern item of
        None \<Rightarrow> None
      | Some pattern \<Rightarrow>
          if pattern = []
             \<or> \<not> (0 \<le> fst (editionCell props rect clientOffset) \<and> fst (editionCell props rect clientOffset) < prop_rows props
                 \<and> 0 \<le> snd (editionCell props rect clientOffset) \<and> snd (editionCell props rect clientOffset) < prop_cols props)
          then None
          else Some (prev\<lparr>cellMinis := (cellMinis prev)
                          (cellId (fst (editionCell props rect clientOffset)) (snd (editionCell props rect clientOffset))
                             \<mapsto> \<lparr>mini_pattern = pattern, mini_color = it_color item\<rparr>),
                        markedCells := markedCells prev
                          - {cellId (fst (editionCell props rect clientOffset)) (snd (editionCell props rect clientOffset))}\<rparr>))"
  using assms by (auto simp: handleDrop_def Let_def split_beta split: option.splits)

lemma handleDrop_Some_cases:
  assumes "handleDrop props container snapshot fresh item clientOffsetOpt prev = Some s'"
  shows "(prop_editionMode props \<and>
           (\<exists>cell m. s' = prev\<lparr>cellMinis := (cellMinis prev)(cell \<mapsto> m), markedCells := markedCells prev - {cell}\<rparr>))
       \<or> (\<not> prop_editionMode props \<and>
           (\<exists>pattern row col. it_pattern item = Some pattern \<and>
              s' = prev\<lparr>pieces := replacePiece (it_pieceId item)
                         (newPiece snapshot fresh item pattern row col) (pieces prev)\<rparr>))"
proof -
  from assms obtain clientOffset rect where
    e: "clientOffsetOpt = Some clientOffset" "container = Some rect"
    by (auto simp: handleDrop_def split: option.splits)
  show ?thesis
  proof (cases "prop_editionMode props")
    case True
    then show ?thesis
      using assms unfolding e handleDrop_edition [OF True]
      by (auto split: option.splits if_splits)
  next
    case False
    then show ?thesis
      using assms unfolding e handleDrop_placement [OF False]
      by (auto split: option.splits if_splits)
  qed
qed

lemma handleDrop_exclusive:
  assumes "handleDrop props container snapshot fresh item clientOffsetOpt prev = Some s'"
    and "exclusive prev"
  shows "exclusive s'"
  using handleDrop_Some_cases [OF assms(1)] assms(2)
  by (auto simp: exclusive_def)

lemma toggleMarkedCell_exclusive:
  "exclusive prev \<Longrightarrow> exclusive (toggleMarkedCell (cellMinis prev) cell prev)"
  by (auto simp: exclusive_def toggleMarkedCell_def dom_def)

lemma rotatePiece_others:
  "rotatePiece ident prev = Inr s' \<Longrightarrow>
     walls s' = walls prev \<and> markedCells s' = markedCells prev \<and> cellMinis s' = cellMinis prev"
  by (auto simp: rotatePiece_def split: sum.splits)

lemma step_exclusive:
  assumes "step props container c e = Some c'" and "exclusive (cp_state c)"
  shows "exclusive (cp_state c')"
proof (cases e)
  case (Drop item clientOffset fresh)
  then show ?thesis
    using assms handleDrop_exclusive
    by (auto split: if_splits option.splits)
next
  case (RemovePiece ident)
  then show ?thesis
    using assms by (auto simp: exclusive_def removePiece_def split: if_splits)
next
  case (RotatePiece ident)
  then show ?thesis
    using assms by (auto simp: exclusive_def dest!: rotatePiece_others split: if_splits sum.splits)
next
  case (ToggleWall wallId)
  then show ?thesis
    using assms by (auto simp: exclusive_def toggleWall_def split: if_splits)
next
  case (ToggleMarkedCell cell)
  then show ?thesis
    using assms toggleMarkedCell_exclusive by (auto split: if_splits)
next
  case ClearGrid
  then show ?thesis
    using assms by (auto simp: exclusive_def clearGrid_def)
next
  case ToggleEditionMode
  then show ?thesis
    using assms by auto
qed

lemma reachable_exclusive: "reachable props container c \<Longrightarrow> exclusive (cp_state c)"
proof (induction rule: reachable.induct)
  case mounted
  show ?case by (simp add: mount_def initial_state_def exclusive_def)
next
  case (stepped c e c')
  then show ?case using step_exclusive by blast
qed

lemma run_reachable:
  "reachable props container c \<Longrightarrow> run props container c es = Some c' \<Longrightarrow>
     reachable props container c'"
proof (induction es arbitrary: c)
  case Nil
  then show ?case by simp
next
  case (Cons e es)
  then show ?case
    by (auto split: option.splits intro: reachable.stepped)
qed

text \<open>Piece ids.\<close>

lemma hasPiece_iff: "hasPiece ident s = (ident \<in> pc_id ` set (pieces s))"
  by (auto simp: hasPiece_def list_ex_iff)

lemma idOrFresh_cases:
  "idOrFresh pieceId fresh = (if isFalsyId pieceId then fresh else the pieceId)"
  by (auto simp: idOrFresh_def isFalsyId_def split: option.splits)

lemma replacePiece_distinct:
  assumes "distinct (map pc_id prev)" and "pc_id piece = idOrFresh pieceId fresh"
    and "fresh \<notin> pc_id ` set prev"
  shows "distinct (map pc_id (replacePiece pieceId piece prev))"
proof (cases "isFalsyId pieceId")
  case True
  then show ?thesis
    using assms by (simp add: replacePiece_def Let_def idOrFresh_cases)
next
  case False
  then obtain ident where i: "pieceId = Some ident"
    by (auto simp: isFalsyId_def)
  have "distinct (map pc_id (filter (\<lambda>p. pc_id p \<noteq> ident) prev))"
    using assms(1) by (rule distinct_map_filter)
  then show ?thesis
    using False assms(2) by (auto simp: replacePiece_def Let_def i idOrFresh_cases)
qed

lemma rotatePieces_ids:
  "rotatePieces ident ps = Inr qs \<Longrightarrow> map pc_id qs = map pc_id ps"
  by (induction ps arbitrary: qs) (auto split: if_splits sum.splits)

lemma step_distinctIds:
  assumes "step props container c e = Some c'" and "distinctIds (cp_state c)"
  shows "distinctIds (cp_state c')"
proof (cases e)
  case (Drop item clientOffset fresh)
  show ?thesis
  proof (cases "handleDrop (props\<lparr>prop_editionMode := cp_editionMode c\<rparr>) container
                (cp_dropPieces c) fresh item clientOffset (cp_state c)")
    case None
    then show ?thesis using assms Drop by (auto split: if_splits)
  next
    case (Some s')
    have fresh: "fresh \<notin> pc_id ` set (pieces (cp_state c))" and c': "c' = c\<lparr>cp_state := s'\<rparr>"
      using assms(1) Drop Some by (auto simp: hasPiece_iff split: if_splits)
    from handleDrop_Some_cases [OF Some] show ?thesis
      using assms(2) fresh replacePiece_distinct [of "pieces (cp_state c)" _ "it_pieceId item" fresh]
      unfolding c' by (auto simp: distinctIds_def)
  qed
next
  case (RemovePiece ident)
  then show ?thesis
    using assms by (auto simp: distinctIds_def removePiece_def distinct_map_filter split: if_splits)
next
  case (RotatePiece ident)
  then show ?thesis
    using assms
    by (auto simp: distinctIds_def rotatePiece_def dest!: rotatePieces_ids split: if_splits sum.splits)
next
  case (ToggleWall wallId)
  then show ?thesis
    using assms by (auto simp: distinctIds_def toggleWall_def split: if_splits)
next
  case (ToggleMarkedCell cell)
  then show ?thesis
    using assms by (auto simp: distinctIds_def toggleMarkedCell_def split: if_splits)
next
  case ClearGrid
  then show ?thesis
    using assms by (auto simp: distinctIds_def clearGrid_def)
next
  case ToggleEditionMode
  then show ?thesis
    using assms by auto
qed

lemma reachable_distinctIds: "reachable props container c \<Longrightarrow> distinctIds (cp_state c)"
proof (induction rule: reachable.induct)
  case mounted
  show ?case by (simp add: mount_def initial_state_def distinctIds_def)
next
  case (stepped c e c')
  then show ?case using step_distinctIds by blast
qed

lemma nat_to_string_digit: "n < 10 \<Longrightarrow> nat_to_string n = [digit n]"
  by simp

lemmas cellId_defs = cellId_def int_to_string_def digit_def

text \<open>
  C9. In every reachable state no cell is both marked and the key of a mini. A toggle at
  a cell with a mini removes the mini and leaves the markers as they were, so the cell
  is not marked, and a second toggle marks it; a toggle at a cell without a mini flips
  the marker of the cell and leaves the minis. An edition-mode drop is accepted exactly
  when the pattern is there and not empty and the cell under the pointer is in the grid;
  it then stores the mini (pattern and color of the item) at the cell under the pointer
  and unmarks that cell. The cell under the pointer is \<open>editionCell\<close>: on each axis the
  rounding of \<open>(pointer - container origin - P) / (S + G)\<close>, for pixel inputs.
\<close>

theorem marker_mini_exclusive:
  assumes "reachable props container c"
  shows "let s = cp_state c;
             s1 = toggleMarkedCell (cellMinis s) cell s;
             s2 = toggleMarkedCell (cellMinis s1) cell s1
         in markedCells s \<inter> dom (cellMinis s) = {}
          \<and> (case cellMinis s cell of
                Some m \<Rightarrow> cellMinis s1 = (cellMinis s)(cell := None) \<and> markedCells s1 = markedCells s
                         \<and> cell \<notin> markedCells s1
                         \<and> cellMinis s2 = cellMinis s1 \<and> markedCells s2 = insert cell (markedCells s1)
              | None \<Rightarrow> cellMinis s1 = cellMinis s
                         \<and> markedCells s1 = (if cell \<in> markedCells s then markedCells s - {cell}
                                             else insert cell (markedCells s)))
          \<and> (case handleDrop (props\<lparr>prop_editionMode := True\<rparr>) container snapshot fresh item clientOffsetOpt s of
                None \<Rightarrow> True
              | Some s' \<Rightarrow>
                  (\<exists>rect clientOffset pattern.
                      container = Some rect \<and> clientOffsetOpt = Some clientOffset
                    \<and> it_pattern item = Some pattern \<and> pattern \<noteq> []
                    \<and> (let (rowCell, colCell) = editionCell (props\<lparr>prop_editionMode := True\<rparr>) rect clientOffset
                       in 0 \<le> rowCell \<and> rowCell < prop_rows props \<and> 0 \<le> colCell \<and> colCell < prop_cols props
                        \<and> cellMinis s' = (cellMinis s)(cellId rowCell colCell \<mapsto>
                                              \<lparr>mini_pattern = pattern, mini_color = it_color item\<rparr>)
                        \<and> markedCells s' = markedCells s - {cellId rowCell colCell}
                        \<and> cellId rowCell colCell \<notin> markedCells s'
                        \<and> pieces s' = pieces s \<and> walls s' = walls s)))
          \<and> ((handleDrop (props\<lparr>prop_editionMode := True\<rparr>) (Some area) snapshot fresh item (Some pointer) s = None) =
               (case it_pattern item of
                  None \<Rightarrow> True
                | Some pattern \<Rightarrow>
                    pattern = [] \<or>
                    (let (rowCell, colCell) = editionCell (props\<lparr>prop_editionMode := True\<rparr>) area pointer
                     in \<not> (0 \<le> rowCell \<and> rowCell < prop_rows props \<and> 0 \<le> colCell \<and> colCell < prop_cols props))))
          \<and> (cellSize props + gapSize props \<noteq> 0 \<and> pixelInputs props area None pointer \<longrightarrow>
               editionCell (props\<lparr>prop_editionMode := True\<rparr>) area pointer =
                 (round (rat_of_int (pt_y pointer - rect_top area - (gapSize props + 3))
                           / rat_of_int (cellSize props + gapSize props)),
                  round (rat_of_int (pt_x pointer - rect_left area - (gapSize props + 3))
                           / rat_of_int (cellSize props + gapSize props))))"
proof -
  define s where "s = cp_state c"
  let ?P = "props\<lparr>prop_editionMode := True\<rparr>"
  have ed: "prop_editionMode ?P" by simp
  have ex: "markedCells s \<inter> dom (cellMinis s) = {}"
    using reachable_exclusive [OF assms] by (simp add: exclusive_def s_def)
  have toggle: "case cellMinis s cell of
                Some m \<Rightarrow> cellMinis (toggleMarkedCell (cellMinis s) cell s) = (cellMinis s)(cell := None)
                   \<and> markedCells (toggleMarkedCell (cellMinis s) cell s) = markedCells s
                   \<and> cell \<notin> markedCells (toggleMarkedCell (cellMinis s) cell s)
                   \<and> cellMinis (toggleMarkedCell (cellMinis (toggleMarkedCell (cellMinis s) cell s)) cell
                        (toggleMarkedCell (cellMinis s) cell s)) = cellMinis (toggleMarkedCell (cellMinis s) cell s)
                   \<and> markedCells (toggleMarkedCell (cellMinis (toggleMarkedCell (cellMinis s) cell s)) cell
                        (toggleMarkedCell (cellMinis s) cell s))
                       = insert cell (markedCells (toggleMarkedCell (cellMinis s) cell s))
              | None \<Rightarrow> cellMinis (toggleMarkedCell (cellMinis s) cell s) = cellMinis s
                   \<and> markedCells (toggleMarkedCell (cellMinis s) cell s)
                       = (if cell \<in> markedCells s then markedCells s - {cell} else insert cell (markedCells s))"
  proof (cases "cellMinis s cell")
    case None
    then show ?thesis by (simp add: toggleMarkedCell_def)
  next
    case (Some m)
    then have "cell \<notin> markedCells s" using ex by auto
    then show ?thesis using Some by (simp add: toggleMarkedCell_def)
  qed
  have drop: "(case handleDrop (props\<lparr>prop_editionMode := True\<rparr>) container snapshot fresh item clientOffsetOpt s of
          None \<Rightarrow> True
        | Some s' \<Rightarrow>
            (\<exists>rect clientOffset pattern.
          container = Some rect \<and> clientOffsetOpt = Some clientOffset
              \<and> it_pattern item = Some pattern \<and> pattern \<noteq> []
              \<and> (let (rowCell, colCell) = editionCell (props\<lparr>prop_editionMode := True\<rparr>) rect clientOffset
           in 0 \<le> rowCell \<and> rowCell < prop_rows props \<and> 0 \<le> colCell \<and> colCell < prop_cols props
            \<and> cellMinis s' = (cellMinis s)(cellId rowCell colCell \<mapsto>
                                  \<lparr>mini_pattern = pattern, mini_color = it_color item\<rparr>)
            \<and> markedCells s' = markedCells s - {cellId rowCell colCell}
            \<and> cellId rowCell colCell \<notin> markedCells s'
            \<and> pieces s' = pieces s \<and> walls s' = walls s)))"
  proof (cases "handleDrop ?P container snapshot fresh item clientOffsetOpt s")
    case None
    then show ?thesis by simp
  next
    case (Some s')
    then obtain clientOffset rect where
      e: "clientOffsetOpt = Some clientOffset" "container = Some rect"
      by (auto simp: handleDrop_def split: option.splits)
    from Some [unfolded e handleDrop_edition [OF ed]] obtain pattern where
      p: "it_pattern item = Some pattern" "pattern \<noteq> []"
         "0 \<le> fst (editionCell ?P rect clientOffset)" "fst (editionCell ?P rect clientOffset) < prop_rows props"
         "0 \<le> snd (editionCell ?P rect clientOffset)" "snd (editionCell ?P rect clientOffset) < prop_cols props"
         "s' = s\<lparr>cellMinis := (cellMinis s)
                   (cellId (fst (editionCell ?P rect clientOffset)) (snd (editionCell ?P rect clientOffset))
                      \<mapsto> \<lparr>mini_pattern = pattern, mini_color = it_color item\<rparr>),
                 markedCells := markedCells s
                   - {cellId (fst (editionCell ?P rect clientOffset)) (snd (editionCell ?P rect clientOffset))}\<rparr>"
      by (auto split: option.splits if_splits)
    show ?thesis
      unfolding Some option.case
      apply (rule exI [of _ rect])
      apply (rule exI [of _ clientOffset])
      apply (rule exI [of _ pattern])
      using p e by (simp add: split_beta)
  qed
  have acc: "((handleDrop (props\<lparr>prop_editionMode := True\<rparr>) (Some area) snapshot fresh item (Some pointer) s = None) =
         (case it_pattern item of
            None \<Rightarrow> True
          | Some pattern \<Rightarrow>
              pattern = [] \<or>
              (let (rowCell, colCell) = editionCell (props\<lparr>prop_editionMode := True\<rparr>) area pointer
               in \<not> (0 \<le> rowCell \<and> rowCell < prop_rows props \<and> 0 \<le> colCell \<and> colCell < prop_cols props))))"
    by (simp add: handleDrop_edition [OF ed] split_beta split: option.splits)
  have closed: "(cellSize props + gapSize props \<noteq> 0 \<and> pixelInputs props area None pointer \<longrightarrow>
         editionCell (props\<lparr>prop_editionMode := True\<rparr>) area pointer =
           (round (rat_of_int (pt_y pointer - rect_top area - (gapSize props + 3))
                     / rat_of_int (cellSize props + gapSize props)),
            round (rat_of_int (pt_x pointer - rect_left area - (gapSize props + 3))
                     / rat_of_int (cellSize props + gapSize props))))"
    by (simp add: editionCell_def Math_round_def round_def containerPadding_def cellSize_def
        gapSize_def Let_def)
  show ?thesis
    using ex toggle drop acc closed unfolding Let_def s_def [symmetric] by blast
qed

lemma componentB_reachable: "reachable propsE (Some \<lparr>rect_left = 100, rect_top = 200\<rparr>) componentB"
proof -
  let ?c = "Some \<lparr>rect_left = 100, rect_top = 200\<rparr>"
  let ?c1 = "\<lparr>cp_state = \<lparr>pieces = [], walls = {}, markedCells = {},
                   cellMinis = [''0-0'' \<mapsto> \<lparr>mini_pattern = [[Num 1], [Num 1]], mini_color = ''#F5BE02''\<rparr>]\<rparr>,
      cp_editionMode = True, cp_dropPieces = []\<rparr>"
  have 0: "reachable propsE ?c (mount propsE)" by (rule reachable.mounted)
  have 1: "step propsE ?c (mount propsE) (Drop itemI2 (Some \<lparr>pt_x = 110, pt_y = 210\<rparr>) ''piece-1'') = Some ?c1"
    by (simp add: mount_def propsE_def props5_def itemI2_def hasPiece_def geometry_defs cellId_defs)
  have 2: "step propsE ?c ?c1 (ToggleMarkedCell ''1-1'') = Some componentB"
    by (simp add: componentB_def toggleMarkedCell_def)
  show ?thesis
    using reachable.stepped [OF reachable.stepped [OF 0 1] 2] .
qed

theorem marker_mini_exclusive_witness:
  "reachable propsE (Some \<lparr>rect_left = 100, rect_top = 200\<rparr>) componentB
   \<and> cellMinis (cp_state componentB) ''0-0'' \<noteq> None
   \<and> ''0-0'' \<notin> markedCells (toggleMarkedCell (cellMinis (cp_state componentB)) ''0-0'' (cp_state componentB))
   \<and> cellMinis (toggleMarkedCell (cellMinis (cp_state componentB)) ''0-0'' (cp_state componentB)) ''0-0'' = None
   \<and> markedCells (cp_state componentB) \<inter> dom (cellMinis (cp_state componentB)) = {}
   \<and> ''1-1'' \<in> markedCells (cp_state componentB)
   \<and> cellSize propsE + gapSize propsE \<noteq> 0
   \<and> pixelInputs propsE \<lparr>rect_left = 100, rect_top = 200\<rparr> None \<lparr>pt_x = 143, pt_y = 243\<rparr>
   \<and> editionCell propsE \<lparr>rect_left = 100, rect_top = 200\<rparr> \<lparr>pt_x = 143, pt_y = 243\<rparr> = (1, 1)
   \<and> cellId 1 1 = ''1-1''
   \<and> handleDrop propsE (Some \<lparr>rect_left = 100, rect_top = 200\<rparr>) [] ''piece-9'' itemI2
        (Some \<lparr>pt_x = 143, pt_y = 243\<rparr>) (cp_state componentB)
      = Some \<lparr>pieces = [], walls = {}, markedCells = {},
               cellMinis = [''0-0'' \<mapsto> \<lparr>mini_pattern = [[Num 1], [Num 1]], mini_color = ''#F5BE02''\<rparr>,
                            ''1-1'' \<mapsto> \<lparr>mini_pattern = [[Num 1], [Num 1]], mini_color = ''#F5BE02''\<rparr>]\<rparr>"
proof -
  note r = componentB_reachable
  let ?rect = "\<lparr>rect_left = 100, rect_top = 200\<rparr>"
  let ?off = "\<lparr>pt_x = 143, pt_y = 243\<rparr>"
  let ?s' = "\<lparr>pieces = [], walls = {}, markedCells = {},
               cellMinis = [''0-0'' \<mapsto> \<lparr>mini_pattern = [[Num 1], [Num 1]], mini_color = ''#F5BE02''\<rparr>,
                            ''1-1'' \<mapsto> \<lparr>mini_pattern = [[Num 1], [Num 1]], mini_color = ''#F5BE02''\<rparr>]\<rparr>"
  have m: "cellMinis (cp_state componentB) ''0-0''
             = Some \<lparr>mini_pattern = [[Num 1], [Num 1]], mini_color = ''#F5BE02''\<rparr>"
    by (simp add: componentB_def)
  have mk: "''1-1'' \<in> markedCells (cp_state componentB)"
    by (simp add: componentB_def)
  have pe: "propsE\<lparr>prop_editionMode := True\<rparr> = propsE"
    by (simp add: propsE_def)
  have h: "cellSize propsE + gapSize propsE \<noteq> 0"
    by (simp add: propsE_def props5_def cellSize_def gapSize_def gridCellSize_def gridPaddingSize_def)
  have px: "pixelInputs propsE ?rect None ?off"
    by (simp add: pixelInputs_def pixel_def propsE_def props5_def cellSize_def gapSize_def
        gridCellSize_def gridPaddingSize_def)
  have d: "handleDrop propsE (Some ?rect) [] ''piece-9'' itemI2 (Some ?off) (cp_state componentB) = Some ?s'"
    by (simp add: componentB_def propsE_def props5_def itemI2_def geometry_defs cellId_defs)
  have id: "cellId 1 1 = ''1-1''"
    by (simp add: cellId_defs)
  note t = marker_mini_exclusive [OF r, where cell = "''0-0''" and snapshot = "[]" and fresh = "''piece-9''"
        and item = itemI2 and clientOffsetOpt = "Some ?off" and area = ?rect and pointer = ?off,
        unfolded Let_def m option.case pe]
  let ?s1 = "toggleMarkedCell (cellMinis (cp_state componentB)) ''0-0'' (cp_state componentB)"
  from t have a: "cellMinis ?s1 = (cellMinis (cp_state componentB))(''0-0'' := None)"
    and b: "''0-0'' \<notin> markedCells ?s1"
    and c: "markedCells (cp_state componentB) \<inter> dom (cellMinis (cp_state componentB)) = {}"
    and cl: "cellSize propsE + gapSize propsE \<noteq> 0 \<and> pixelInputs propsE ?rect None ?off \<longrightarrow>
               editionCell propsE ?rect ?off =
                 (round (rat_of_int (pt_y ?off - rect_top ?rect - (gapSize propsE + 3))
                           / rat_of_int (cellSize propsE + gapSize propsE)),
                  round (rat_of_int (pt_x ?off - rect_left ?rect - (gapSize propsE + 3))
                           / rat_of_int (cellSize propsE + gapSize propsE)))"
    by blast+
  have "cellMinis ?s1 ''0-0'' = None" by (simp add: a)
  moreover have "editionCell propsE ?rect ?off = (1, 1)"
    using cl h px
    by (simp add: propsE_def props5_def cellSize_def gapSize_def gridCellSize_def gridPaddingSize_def
        round_def floor_numeral_quot)
  ultimately show ?thesis
    using r m mk b c h px d id by simp
qed

section \<open>Moving a placed piece\<close>

lemma replacePiece_count:
  assumes "pieceId = Some ident" and "ident \<noteq> []" and "pc_id piece = ident"
  shows "filter (\<lambda>p. pc_id p = ident) (replacePiece pieceId piece prev) = [piece]"
proof -
  have "filter (\<lambda>p. pc_id p = ident) (filter (\<lambda>p. pc_id p \<noteq> ident) prev) = []"
    by (induction prev) simp_all
  then show ?thesis
    using assms by (simp add: replacePiece_def Let_def isFalsyId_def)
qed

text \<open>
  An accepted drop of an item that carries a piece id leaves exactly one piece with that
  id, at the new origin, whatever the pieces were and wherever the old footprint was.
\<close>

lemma handleDrop_move_one:
  assumes "\<not> prop_editionMode props"
    and "it_pieceId item = Some ident" and "ident \<noteq> []"
    and "handleDrop props (Some rect) snapshot fresh item (Some clientOffset) prev = Some s'"
  shows "\<exists>pattern. it_pattern item = Some pattern \<and>
           filter (\<lambda>p. pc_id p = ident) (pieces s') =
             [newPiece snapshot fresh item pattern
                (fst (originCell props rect (it_pointerOffset item) pattern clientOffset))
                (snd (originCell props rect (it_pointerOffset item) pattern clientOffset))]"
proof -
  note hd = assms(4) [unfolded handleDrop_placement [OF assms(1)]]
  from hd obtain pattern where p: "it_pattern item = Some pattern"
    by (auto split: option.splits)
  let ?o = "originCell props rect (it_pointerOffset item) pattern clientOffset"
  have s': "s' = prev\<lparr>pieces := replacePiece (it_pieceId item)
                  (newPiece snapshot fresh item pattern (fst ?o) (snd ?o)) (pieces prev)\<rparr>"
    using hd p by (auto split: if_splits)
  have "pc_id (newPiece snapshot fresh item pattern (fst ?o) (snd ?o)) = ident"
    using assms(2,3) by (simp add: idOrFresh_def)
  then show ?thesis
    using p replacePiece_count [OF assms(2,3)] unfolding s' by simp
qed

text \<open>
  The original pattern and the rotation of the new piece are those of the piece with
  this id in the snapshot of the closure, not in the state.
\<close>

lemma newPiece_from_snapshot:
  assumes "find (\<lambda>p. Some (pc_id p) = it_pieceId item) snapshot = Some old"
  shows "pc_originalPattern (newPiece snapshot fresh item pattern row col) = pc_originalPattern old"
    and "pc_rotation (newPiece snapshot fresh item pattern row col) = pc_rotation old"
  using assms by (simp_all add: newPiece_def Let_def)

lemma newPiece_not_in_snapshot:
  assumes "find (\<lambda>p. Some (pc_id p) = it_pieceId item) snapshot = None"
  shows "pc_originalPattern (newPiece snapshot fresh item pattern row col) = pattern"
    and "pc_rotation (newPiece snapshot fresh item pattern row col) = 0"
  using assms by (simp_all add: newPiece_def Let_def)

lemmas rotate_defs = rotatePiece_def rotatePattern_def rotatePattern_run_def rotate_loops_def
  rotate_inner_def rotate_body_def cellAt_def

text \<open>
  C4 on the mounted component. A piece is dropped from the palette, rotated by a click
  and then dragged to another cell. The drop handler is the one memoised at mount, whose
  \<^verbatim>\<open>pieces\<close> is the empty list; it finds no existing piece, so the moved piece gets
  rotation 0 and the rotated pattern as its original pattern, where it had rotation 90
  and the pattern as authored. The same call with the current pieces as its snapshot
  keeps both.
\<close>

theorem move_after_rotate_loses_rotation:
  "run props5 (Some \<lparr>rect_left = 100, rect_top = 200\<rparr>) (mount props5)
     [Drop itemI2 (Some \<lparr>pt_x = 158, pt_y = 298\<rparr>) ''piece-1'', RotatePiece ''piece-1'']
     = Some \<lparr>cp_state = \<lparr>pieces = [pieceRotated], walls = {}, markedCells = {}, cellMinis = Map.empty\<rparr>,
             cp_editionMode = False, cp_dropPieces = []\<rparr>
   \<and> run props5 (Some \<lparr>rect_left = 100, rect_top = 200\<rparr>) (mount props5)
     [Drop itemI2 (Some \<lparr>pt_x = 158, pt_y = 298\<rparr>) ''piece-1'', RotatePiece ''piece-1'',
      Drop (overlayItem pieceRotated \<lparr>pt_x = 0, pt_y = 0\<rparr>) (Some \<lparr>pt_x = 108, pt_y = 208\<rparr>) ''piece-2'']
     = Some \<lparr>cp_state = \<lparr>pieces = [pieceRotated\<lparr>pc_row := 0, pc_col := 0,
                                        pc_originalPattern := [[Num 1, Num 1]], pc_rotation := 0\<rparr>],
                          walls = {}, markedCells = {}, cellMinis = Map.empty\<rparr>,
             cp_editionMode = False, cp_dropPieces = []\<rparr>
   \<and> handleDrop props5 (Some \<lparr>rect_left = 100, rect_top = 200\<rparr>) [pieceRotated] ''piece-2''
       (overlayItem pieceRotated \<lparr>pt_x = 0, pt_y = 0\<rparr>) (Some \<lparr>pt_x = 108, pt_y = 208\<rparr>)
       \<lparr>pieces = [pieceRotated], walls = {}, markedCells = {}, cellMinis = Map.empty\<rparr>
     = Some \<lparr>pieces = [pieceRotated\<lparr>pc_row := 0, pc_col := 0\<rparr>],
             walls = {}, markedCells = {}, cellMinis = Map.empty\<rparr>"
  by (simp add: mount_def props5_def itemI2_def overlayItem_def pieceRotated_def hasPiece_def
      geometry_defs rotate_defs)

section \<open>The color of a cell\<close>

lemma pieceCovers_iff: "pieceCovers piece row col = inFootprint piece row col"
proof
  assume "pieceCovers piece row col"
  then obtain r c where
    rc: "r < length (pc_pattern piece)" "c < length (pc_pattern piece ! r)"
        "truthy (pc_pattern piece ! r ! c)" "pc_row piece + int r = row" "pc_col piece + int c = col"
    by (auto simp: pieceCovers_def list_ex_iff)
  have "row - pc_row piece = int r" "col - pc_col piece = int c"
    using rc(4,5) by simp_all
  then show "inFootprint piece row col"
    using rc(1-3) by (simp add: inFootprint_def cellSet_def Let_def)
next
  assume "inFootprint piece row col"
  then have a: "0 \<le> row - pc_row piece" "0 \<le> col - pc_col piece"
    and b: "cellSet (pc_pattern piece) (nat (row - pc_row piece)) (nat (col - pc_col piece))"
    by (simp_all add: inFootprint_def Let_def)
  show "pieceCovers piece row col"
    unfolding pieceCovers_def list_ex_iff
    using a b
    by (intro bexI [of _ "nat (row - pc_row piece)"] bexI [of _ "nat (col - pc_col piece)"])
       (simp_all add: cellSet_def)
qed

lemma scanPieces_find:
  "scanPieces qs row col = map_option pc_color (find (\<lambda>p. inFootprint p row col) qs)"
  by (induction qs) (simp_all add: pieceCovers_iff)

text \<open>
  C8. \<^verbatim>\<open>getCellColor\<close> returns the color of the first piece, from the last placed to the
  first, whose footprint holds the cell, and \<^verbatim>\<open>null\<close> when no footprint does; the cell then
  renders with the background color (an empty color string renders as the background
  too). A piece placed last wins wherever its footprint reaches.
\<close>

theorem getCellColor_topmost:
  "getCellColor ps row col = map_option pc_color (find (\<lambda>p. inFootprint p row col) (rev ps))
   \<and> cellBackground ps row col =
       (case find (\<lambda>p. inFootprint p row col) (rev ps) of
          None \<Rightarrow> gridCellColor
        | Some p \<Rightarrow> if pc_color p = [] then gridCellColor else pc_color p)
   \<and> (inFootprint b row col \<longrightarrow> getCellColor (ps @ [b]) row col = Some (pc_color b))
   \<and> ((\<forall>p\<in>set ps. \<not> inFootprint p row col) \<longrightarrow>
        getCellColor ps row col = None \<and> cellBackground ps row col = gridCellColor)"
proof -
  have 1: "getCellColor ps row col = map_option pc_color (find (\<lambda>p. inFootprint p row col) (rev ps))"
    by (simp add: getCellColor_def scanPieces_find)
  have 2: "getCellColor (ps @ [b]) row col = Some (pc_color b)" if "inFootprint b row col"
    using that by (simp add: getCellColor_def scanPieces_find)
  have 3: "find (\<lambda>p. inFootprint p row col) (rev ps) = None" if "\<forall>p\<in>set ps. \<not> inFootprint p row col"
    using that by (simp add: find_None_iff)
  show ?thesis
    using 1 2 3 by (auto simp: cellBackground_def split: option.splits)
qed

theorem getCellColor_topmost_witness:
  "inFootprint pieceB 0 1
   \<and> handleDrop props5 (Some \<lparr>rect_left = 0, rect_top = 0\<rparr>) [] ''piece-2''
        \<lparr>it_pattern = Some [[Num 1, Num 1]], it_type = ''I2'', it_color = ''#3182CE'',
         it_pieceId = None, it_pointerOffset = None\<rparr>
        (Some \<lparr>pt_x = 8, pt_y = 8\<rparr>) stateA = Some (stateA\<lparr>pieces := [pieceA] @ [pieceB]\<rparr>)
   \<and> getCellColor ([pieceA] @ [pieceB]) 0 1 = Some ''#3182CE''
   \<and> getCellColor [pieceA] 0 1 = Some ''#F5BE02''
   \<and> \<not> inFootprint pieceA 1 1 \<and> cellBackground [pieceA] 1 1 = ''#2d3748''"
proof -
  have f: "inFootprint pieceB 0 1"
    by (simp add: inFootprint_def cellSet_def pieceB_def)
  have n: "\<forall>p\<in>set [pieceA]. \<not> inFootprint p 1 1"
    by (simp add: inFootprint_def cellSet_def pieceA_def)
  have d: "handleDrop props5 (Some \<lparr>rect_left = 0, rect_top = 0\<rparr>) [] ''piece-2''
        \<lparr>it_pattern = Some [[Num 1, Num 1]], it_type = ''I2'', it_color = ''#3182CE'',
         it_pieceId = None, it_pointerOffset = None\<rparr>
        (Some \<lparr>pt_x = 8, pt_y = 8\<rparr>) stateA = Some (stateA\<lparr>pieces := [pieceA] @ [pieceB]\<rparr>)"
    by (simp add: geometry_defs props5_def stateA_def pieceB_def)
  have a: "getCellColor [pieceA] 0 1 = Some ''#F5BE02''"
    by (simp add: getCellColor_def pieceCovers_def pieceA_def)
  note t = getCellColor_topmost [of "[pieceA]" 0 1 pieceB] getCellColor_topmost [of "[pieceA]" 1 1 pieceB]
  show ?thesis
    using f n d a t by (simp add: pieceB_def gridCellColor_def)
qed

section \<open>The hover preview\<close>

lemma hover_inner:
  "fold (hover_body props pattern row col i) [0..<m] A =
     A \<union> {cellId (row + int i) (col + int j) | j. j < m \<and> truthy (pattern ! i ! j)
            \<and> 0 \<le> row + int i \<and> row + int i < prop_rows props
            \<and> 0 \<le> col + int j \<and> col + int j < prop_cols props}"
proof (induction m)
  case 0
  show ?case by simp
next
  case (Suc m)
  show ?case
    unfolding upt_Suc_append [OF le0] fold_append comp_def fold_simps Suc.IH
    by (auto simp: hover_body_def Let_def less_Suc_eq)
qed

lemma fold_union_upt: "fold (\<lambda>i a. a \<union> S i) [0..<n] A = A \<union> (\<Union>i\<in>{..<n}. S i)"
  by (induction n) (auto simp: less_Suc_eq)

lemma hover_outer:
  "fold (\<lambda>i. fold (hover_body props pattern row col i) [0..<length (pattern ! i)]) [0..<n] A =
     A \<union> {cellId (row + int i) (col + int j) | i j. i < n \<and> j < length (pattern ! i)
            \<and> truthy (pattern ! i ! j)
            \<and> 0 \<le> row + int i \<and> row + int i < prop_rows props
            \<and> 0 \<le> col + int j \<and> col + int j < prop_cols props}"
  unfolding hover_inner fold_union_upt by auto

lemma hover_loops_set:
  "hover_loops props pattern row col =
     {cellId (row + int i) (col + int j) | i j. cellSet pattern i j
        \<and> 0 \<le> row + int i \<and> row + int i < prop_rows props
        \<and> 0 \<le> col + int j \<and> col + int j < prop_cols props}"
  unfolding hover_loops_def hover_outer cellSet_def by auto

text \<open>
  C10. \<^verbatim>\<open>getHoverCells\<close> is empty when no drag is in progress, in edition mode, and when
  the item, the pointer, the container or the pattern is missing or the pattern is empty;
  otherwise it is the set of the identifiers of the cells \<open>(row + i, col + j)\<close>, for the set
  cells \<open>(i, j)\<close> of the pattern, that lie inside the grid, with \<open>(row, col)\<close> the origin that
  \<^verbatim>\<open>handleDrop\<close> computes for the same pointer. When \<^verbatim>\<open>handleDrop\<close> accepts the drop, the
  preview is the whole footprint of the piece placed. (The function takes and returns no
  grid state.)
\<close>

theorem getHoverCells_clipped:
  assumes "cellSize props + gapSize props \<noteq> 0"
  shows "getHoverCells props container isDragging dragItem dragClientOffset =
     (if \<not> isDragging \<or> prop_editionMode props then {}
      else
        (case (dragItem, dragClientOffset, container) of
           (Some item, Some clientOffset, Some rect) \<Rightarrow>
             (case it_pattern item of
                None \<Rightarrow> {}
              | Some pattern \<Rightarrow>
                  if pattern = [] then {}
                  else
                    (let (row, col) = originCell props rect (it_pointerOffset item) pattern clientOffset
                     in {cellId (row + int i) (col + int j) | i j. cellSet pattern i j
                           \<and> 0 \<le> row + int i \<and> row + int i < prop_rows props
                           \<and> 0 \<le> col + int j \<and> col + int j < prop_cols props}))
         | _ \<Rightarrow> {}))
   \<and> (isDragging \<and> \<not> prop_editionMode props
        \<and> handleDrop props (Some rect') snapshot fresh item' (Some clientOffset') prev = Some s'
      \<longrightarrow> getHoverCells props (Some rect') isDragging (Some item') (Some clientOffset') =
            {cellId (pc_row (last (pieces s')) + int i) (pc_col (last (pieces s')) + int j) | i j.
               cellSet (pc_pattern (last (pieces s'))) i j})"
proof -
  have 1: "getHoverCells props container isDragging dragItem dragClientOffset =
     (if \<not> isDragging \<or> prop_editionMode props then {}
      else
        (case (dragItem, dragClientOffset, container) of
           (Some item, Some clientOffset, Some rect) \<Rightarrow>
             (case it_pattern item of
                None \<Rightarrow> {}
              | Some pattern \<Rightarrow>
                  if pattern = [] then {}
                  else
                    (let (row, col) = originCell props rect (it_pointerOffset item) pattern clientOffset
                     in {cellId (row + int i) (col + int j) | i j. cellSet pattern i j
                           \<and> 0 \<le> row + int i \<and> row + int i < prop_rows props
                           \<and> 0 \<le> col + int j \<and> col + int j < prop_cols props}))
         | _ \<Rightarrow> {}))"
    for container dragItem dragClientOffset
    unfolding getHoverCells_def hover_loops_set ..
  have 2: "getHoverCells props (Some rect') isDragging (Some item') (Some clientOffset') =
            {cellId (pc_row (last (pieces s')) + int i) (pc_col (last (pieces s')) + int j) | i j.
               cellSet (pc_pattern (last (pieces s'))) i j}"
    if d: "isDragging" and e: "\<not> prop_editionMode props"
      and h: "handleDrop props (Some rect') snapshot fresh item' (Some clientOffset') prev = Some s'"
  proof -
    note hd = h [unfolded handleDrop_placement [OF e]]
    from hd obtain pattern where p: "it_pattern item' = Some pattern" "pattern \<noteq> []"
      by (auto split: option.splits if_splits)
    let ?o = "originCell props rect' (it_pointerOffset item') pattern clientOffset'"
    have fit: "\<not> doesNotFit props pattern (fst ?o) (snd ?o)"
      using hd p by (auto split: if_splits)
    have s': "s' = prev\<lparr>pieces := replacePiece (it_pieceId item')
                  (newPiece snapshot fresh item' pattern (fst ?o) (snd ?o)) (pieces prev)\<rparr>"
      using hd p by (auto split: if_splits)
    have inb: "0 \<le> fst ?o + int i \<and> fst ?o + int i < prop_rows props
             \<and> 0 \<le> snd ?o + int j \<and> snd ?o + int j < prop_cols props" if "cellSet pattern i j" for i j
      using fit that unfolding doesNotFit_iff by blast
    have "getHoverCells props (Some rect') isDragging (Some item') (Some clientOffset') =
            {cellId (fst ?o + int i) (snd ?o + int j) | i j. cellSet pattern i j
                           \<and> 0 \<le> fst ?o + int i \<and> fst ?o + int i < prop_rows props
                           \<and> 0 \<le> snd ?o + int j \<and> snd ?o + int j < prop_cols props}"
      unfolding 1 [of "Some rect'" "Some item'" "Some clientOffset'"] using d e p
      by (simp add: split_beta)
    also have "\<dots> = {cellId (fst ?o + int i) (snd ?o + int j) | i j. cellSet pattern i j}"
      using inb by blast
    finally show ?thesis
      unfolding s' by simp
  qed
  show ?thesis
    using 1 2 by blast
qed

theorem getHoverCells_clipped_witness:
  "cellSize props5 + gapSize props5 \<noteq> 0
   \<and> getHoverCells props5 (Some \<lparr>rect_left = 0, rect_top = 0\<rparr>) True
        (Some (overlayItem pieceA \<lparr>pt_x = 0, pt_y = 0\<rparr>)) (Some \<lparr>pt_x = 148, pt_y = 8\<rparr>) = {''0-4''}
   \<and> handleDrop props5 (Some \<lparr>rect_left = 0, rect_top = 0\<rparr>) [] ''piece-2''
        (overlayItem pieceA \<lparr>pt_x = 0, pt_y = 0\<rparr>) (Some \<lparr>pt_x = 148, pt_y = 8\<rparr>) stateA = None
   \<and> getHoverCells props5 (Some \<lparr>rect_left = 0, rect_top = 0\<rparr>) True
        (Some (overlayItem pieceA \<lparr>pt_x = 0, pt_y = 0\<rparr>)) (Some \<lparr>pt_x = 113, pt_y = 8\<rparr>) = {''0-3'', ''0-4''}
   \<and> handleDrop props5 (Some \<lparr>rect_left = 0, rect_top = 0\<rparr>) [] ''piece-2''
        (overlayItem pieceA \<lparr>pt_x = 0, pt_y = 0\<rparr>) (Some \<lparr>pt_x = 113, pt_y = 8\<rparr>) stateA
       = Some (stateA\<lparr>pieces := [pieceA\<lparr>pc_col := 3\<rparr>]\<rparr>)
   \<and> getHoverCells props5 (Some \<lparr>rect_left = 0, rect_top = 0\<rparr>) True
        (Some (overlayItem pieceA \<lparr>pt_x = 0, pt_y = 0\<rparr>)) (Some \<lparr>pt_x = 113, pt_y = 8\<rparr>)
       = {cellId (0 + int i) (3 + int j) | i j. cellSet [[Num 1, Num 1]] i j}
   \<and> getHoverCells propsE (Some \<lparr>rect_left = 0, rect_top = 0\<rparr>) True
        (Some (overlayItem pieceA \<lparr>pt_x = 0, pt_y = 0\<rparr>)) (Some \<lparr>pt_x = 113, pt_y = 8\<rparr>) = {}"
proof -
  let ?rect = "\<lparr>rect_left = 0, rect_top = 0\<rparr>"
  let ?item = "overlayItem pieceA \<lparr>pt_x = 0, pt_y = 0\<rparr>"
  have h: "cellSize props5 + gapSize props5 \<noteq> 0"
    by (simp add: props5_def cellSize_def gapSize_def gridCellSize_def gridPaddingSize_def)
  have hE: "cellSize propsE + gapSize propsE \<noteq> 0"
    by (simp add: propsE_def props5_def cellSize_def gapSize_def gridCellSize_def gridPaddingSize_def)
  have a: "getHoverCells props5 (Some ?rect) True (Some ?item) (Some \<lparr>pt_x = 148, pt_y = 8\<rparr>) = {''0-4''}"
    by (simp add: getHoverCells_def hover_loops_def hover_body_def overlayItem_def pieceA_def
        geometry_defs cellId_defs props5_def)
  have b: "handleDrop props5 (Some ?rect) [] ''piece-2'' ?item (Some \<lparr>pt_x = 148, pt_y = 8\<rparr>) stateA = None"
    by (simp add: overlayItem_def pieceA_def stateA_def geometry_defs props5_def)
  have c: "getHoverCells props5 (Some ?rect) True (Some ?item) (Some \<lparr>pt_x = 113, pt_y = 8\<rparr>) = {''0-3'', ''0-4''}"
    by (simp add: getHoverCells_def hover_loops_def hover_body_def overlayItem_def pieceA_def
        geometry_defs cellId_defs props5_def insert_commute)
  have d: "handleDrop props5 (Some ?rect) [] ''piece-2'' ?item (Some \<lparr>pt_x = 113, pt_y = 8\<rparr>) stateA
       = Some (stateA\<lparr>pieces := [pieceA\<lparr>pc_col := 3\<rparr>]\<rparr>)"
    by (simp add: overlayItem_def pieceA_def stateA_def geometry_defs props5_def)
  have e: "getHoverCells props5 (Some ?rect) True (Some ?item) (Some \<lparr>pt_x = 113, pt_y = 8\<rparr>)
       = {cellId (0 + int i) (3 + int j) | i j. cellSet [[Num 1, Num 1]] i j}"
    using getHoverCells_clipped [OF h, THEN conjunct2, rule_format, of True ?rect "[]" "''piece-2''"
        ?item "\<lparr>pt_x = 113, pt_y = 8\<rparr>" stateA "stateA\<lparr>pieces := [pieceA\<lparr>pc_col := 3\<rparr>]\<rparr>"] d
    by (simp add: props5_def pieceA_def)
  have f: "getHoverCells propsE (Some ?rect) True (Some ?item) (Some \<lparr>pt_x = 113, pt_y = 8\<rparr>) = {}"
    using getHoverCells_clipped [OF hE, THEN conjunct1, of "Some ?rect" True "Some ?item"
        "Some \<lparr>pt_x = 113, pt_y = 8\<rparr>"]
    by (simp add: propsE_def)
  show ?thesis
    using h a b c d e f by simp
qed

section \<open>Cell identifiers of different cells differ\<close>

declare nat_to_string.simps [simp del]

lemma digit_inj: "a < 10 \<Longrightarrow> b < 10 \<Longrightarrow> digit a = digit b \<Longrightarrow> a = b"
proof -
  assume a: "a < 10" and b: "b < 10" and e: "digit a = digit b"
  have d: "distinct ''0123456789''" by simp
  have "length ''0123456789'' = 10" by simp
  with a b e d show ?thesis
    unfolding digit_def by (metis nth_eq_iff_index_eq)
qed

lemma digit_not_dash: "d < 10 \<Longrightarrow> digit d \<noteq> CHR ''-''"
proof -
  assume "d < 10"
  then have "digit d \<in> set ''0123456789''"
    unfolding digit_def by (intro nth_mem) simp
  then show ?thesis by auto
qed

lemma nat_to_string_nonempty: "nat_to_string n \<noteq> []"
  by (subst nat_to_string.simps) simp

lemma nat_to_string_no_dash: "CHR ''-'' \<notin> set (nat_to_string n)"
proof (induction n rule: nat_to_string.induct)
  case (1 n)
  show ?case
  proof (cases "n < 10")
    case True
    then show ?thesis
      using digit_not_dash [of n] by (subst nat_to_string.simps) auto
  next
    case False
    then show ?thesis
      using 1 digit_not_dash [of "n mod 10"] by (subst nat_to_string.simps) auto
  qed
qed

lemma nat_to_string_inj: "nat_to_string a = nat_to_string b \<Longrightarrow> a = b"
proof (induction a arbitrary: b rule: nat_to_string.induct)
  case (1 a)
  note eq = "1.prems"
  show ?case
  proof (cases "a < 10")
    case True
    note a = True
    show ?thesis
    proof (cases "b < 10")
      case True
      then show ?thesis
        using eq a digit_inj
        by (simp add: nat_to_string.simps [of a] nat_to_string.simps [of b])
    next
      case False
      then have "length (nat_to_string b) \<ge> 2"
        using nat_to_string_nonempty [of "b div 10"]
        by (subst nat_to_string.simps) (cases "nat_to_string (b div 10)", auto)
      moreover have "length (nat_to_string a) = 1"
        using a by (simp add: nat_to_string.simps [of a])
      ultimately show ?thesis using eq by simp
    qed
  next
    case False
    note a = False
    show ?thesis
    proof (cases "b < 10")
      case True
      have "length (nat_to_string a) \<ge> 2"
        using a nat_to_string_nonempty [of "a div 10"]
        by (subst nat_to_string.simps) (cases "nat_to_string (a div 10)", auto)
      moreover have "length (nat_to_string b) = 1"
        using True by (simp add: nat_to_string.simps [of b])
      ultimately show ?thesis using eq by simp
    next
      case False
      have "nat_to_string (a div 10) @ [digit (a mod 10)] = nat_to_string (b div 10) @ [digit (b mod 10)]"
        using eq a False by (simp add: nat_to_string.simps [of a] nat_to_string.simps [of b])
      then have "nat_to_string (a div 10) = nat_to_string (b div 10)" "digit (a mod 10) = digit (b mod 10)"
        by simp_all
      then have "a div 10 = b div 10" "a mod 10 = b mod 10"
        using "1.IH" [OF a] digit_inj [of "a mod 10" "b mod 10"] by simp_all
      then show ?thesis
        by (metis div_mult_mod_eq)
    qed
  qed
qed

lemma split_at_dash:
  assumes "CHR ''-'' \<notin> set xs" "CHR ''-'' \<notin> set xs'"
    and "xs @ CHR ''-'' # ys = xs' @ CHR ''-'' # ys'"
  shows "xs = xs' \<and> ys = ys'"
proof -
  have "takeWhile (\<lambda>c. c \<noteq> CHR ''-'') (xs @ CHR ''-'' # ys) = xs"
       "takeWhile (\<lambda>c. c \<noteq> CHR ''-'') (xs' @ CHR ''-'' # ys') = xs'"
    using assms(1,2) by (auto simp: takeWhile_tail)
  then have "xs = xs'" using assms(3) by simp
  then show ?thesis using assms(3) by simp
qed

lemma cellId_inj:
  assumes "0 \<le> r" "0 \<le> c" "0 \<le> r'" "0 \<le> c'" and "cellId r c = cellId r' c'"
  shows "r = r' \<and> c = c'"
proof -
  have "nat_to_string (nat r) @ CHR ''-'' # nat_to_string (nat c)
          = nat_to_string (nat r') @ CHR ''-'' # nat_to_string (nat c')"
    using assms by (simp add: cellId_def int_to_string_def)
  then have "nat_to_string (nat r) = nat_to_string (nat r')" "nat_to_string (nat c) = nat_to_string (nat c')"
    using split_at_dash [OF nat_to_string_no_dash nat_to_string_no_dash] by blast+
  then have "nat r = nat r'" "nat c = nat c'"
    using nat_to_string_inj by blast+
  then show ?thesis using assms(1-4) by (metis nat_eq_iff2)
qed


end
